theory Spec2Isabelle
  imports Complex_Main "HOL-Library.Sublist"
begin

section \<open>Strings, exceptions and the marker file system\<close>

text \<open>
  A Python \<open>str\<close> is a sequence of Unicode code points, so it is modelled as a list of
  naturals; \<open>ascii\<close> embeds an ASCII literal. Paths are strings as well
  (\<open>str(filepath)\<close>).
\<close>

type_synonym pystr = "nat list"

definition ascii :: "string \<Rightarrow> pystr" where
  "ascii cs = map of_char cs"

text \<open>\<open>needle in haystack\<close> on Python strings: the needle occurs as a contiguous run.\<close>

fun py_in :: "pystr \<Rightarrow> pystr \<Rightarrow> bool" where
  "py_in needle [] = (needle = [])"
| "py_in needle (c # cs) = (prefix needle (c # cs) \<or> py_in needle cs)"

text \<open>\<open>str(n)\<close> for a natural number: its decimal digits.\<close>

fun str_nat :: "nat \<Rightarrow> pystr" where
  "str_nat n = (if n < 10 then [48 + n] else str_nat (n div 10) @ [48 + n mod 10])"

declare str_nat.simps [simp del]

text \<open>
  Exceptions as values. \<open>CancelledError\<close> derives from \<open>BaseException\<close>, so an
  \<open>except Exception\<close> clause does not catch it; every other exception of the model is a
  subclass of \<open>Exception\<close>.
\<close>

datatype exn =
    OSError
  | TimeoutError pystr
  | CancelledError
  | RuntimeError pystr

fun is_Exception :: "exn \<Rightarrow> bool" where
  "is_Exception CancelledError = False"
| "is_Exception _ = True"

text \<open>
  The part of the outside world that \<open>FileLock\<close> touches: the files by path, the wall
  clock in seconds (\<open>time.time()\<close>), the process id (\<open>os.getpid()\<close>), how a clock
  reading prints inside an f-string, and the paths on which reading, writing or deleting
  fails with an \<open>OSError\<close>.
\<close>

record world =
  files :: "pystr \<rightharpoonup> pystr"
  now :: rat
  pid :: nat
  str_float :: "rat \<Rightarrow> pystr"
  read_denied :: "pystr set"
  write_denied :: "pystr set"
  unlink_denied :: "pystr set"

definition path_exists :: "pystr \<Rightarrow> world \<Rightarrow> bool" where
  "path_exists p w = (files w p \<noteq> None)"

definition write_text :: "pystr \<Rightarrow> pystr \<Rightarrow> world \<Rightarrow> exn + world" where
  "write_text p c w =
     (if p \<in> write_denied w then Inl OSError
      else Inr (w\<lparr>files := (files w)(p \<mapsto> c)\<rparr>))"

definition read_text :: "pystr \<Rightarrow> world \<Rightarrow> exn + pystr" where
  "read_text p w =
     (if p \<in> read_denied w then Inl OSError
      else case files w p of None \<Rightarrow> Inl OSError | Some c \<Rightarrow> Inr c)"

definition unlink :: "pystr \<Rightarrow> world \<Rightarrow> exn + world" where
  "unlink p w =
     (if p \<in> unlink_denied w then Inl OSError
      else case files w p of
             None \<Rightarrow> Inl OSError
           | Some _ \<Rightarrow> Inr (w\<lparr>files := (files w)(p := None)\<rparr>))"

text \<open>
  \<open>await asyncio.sleep(d)\<close>: the caller is suspended, the other tasks and processes run
  (\<open>env\<close> is what they do to the world meanwhile), and the clock has advanced by \<open>d\<close>
  when the caller resumes.
\<close>

definition sleep :: "(world \<Rightarrow> world) \<Rightarrow> rat \<Rightarrow> world \<Rightarrow> world" where
  "sleep env d w = (env w)\<lparr>now := now w + d\<rparr>"

section \<open>FileLock (nanobot/utils/file\_lock.py)\<close>

record FileLock =
  filepath :: pystr
  lockfile :: pystr
  timeout :: rat
  is_main_agent :: bool
  acquired :: bool

definition FileLock_init :: "pystr \<Rightarrow> rat \<Rightarrow> bool \<Rightarrow> FileLock" where
  "FileLock_init fp t m =
     \<lparr>filepath = fp, lockfile = fp @ ascii ''.nanobot_lock'', timeout = t,
      is_main_agent = m, acquired = False\<rparr>"

text \<open>The record written into the marker: \<open>f"{os.getpid()}|{time.time()}|{role}"\<close>.\<close>

definition marker_content :: "world \<Rightarrow> bool \<Rightarrow> pystr" where
  "marker_content w m =
     str_nat (pid w) @ ascii ''|'' @ str_float w (now w) @ ascii ''|'' @
     (if m then ascii ''main'' else ascii ''selfagent'')"

text \<open>
  The role tag of a marker is its last \<open>|\<close>-separated field (the reading of the format
  above; the code itself only ever tests \<open>"selfagent" in content\<close>).
\<close>

definition role_tag :: "pystr \<Rightarrow> pystr" where
  "role_tag c = rev (takeWhile (\<lambda>x. x \<noteq> 124) (rev c))"

text \<open>
  One \<open>try\<close> block of the polling loop either returns from \<open>acquire\<close> (\<open>Done\<close>),
  falls through to the code after it (\<open>Pass\<close>: the guard was false, or an
  \<open>Exception\<close> was swallowed), or lets an exception escape (\<open>Raise\<close>).
\<close>

datatype 'a attempt = Done 'a | Pass | Raise exn

text \<open>Lines 42-50: the marker is absent, so create it.\<close>

definition try_create :: "FileLock \<Rightarrow> world \<Rightarrow> (FileLock \<times> world) attempt" where
  "try_create l w =
     (if \<not> path_exists (lockfile l) w then
        (case write_text (lockfile l) (marker_content w (is_main_agent l)) w of
           Inr w' \<Rightarrow> Done (l\<lparr>acquired := True\<rparr>, w')
         | Inl e \<Rightarrow> if is_Exception e then Pass else Raise e)
      else Pass)"

text \<open>Lines 53-63: the main agent takes over a marker whose content mentions \<open>selfagent\<close>.\<close>

definition try_override :: "FileLock \<Rightarrow> world \<Rightarrow> (FileLock \<times> world) attempt" where
  "try_override l w =
     (if is_main_agent l \<and> path_exists (lockfile l) w then
        (case read_text (lockfile l) w of
           Inl e \<Rightarrow> if is_Exception e then Pass else Raise e
         | Inr content \<Rightarrow>
             if py_in (ascii ''selfagent'') content then
               (case write_text (lockfile l) (marker_content w True) w of
                  Inr w' \<Rightarrow> Done (l\<lparr>acquired := True\<rparr>, w')
                | Inl e \<Rightarrow> if is_Exception e then Pass else Raise e)
             else Pass)
      else Pass)"

text \<open>One iteration of the \<open>while\<close> loop of \<open>acquire\<close>, up to the sleep.\<close>

definition acquire_iter :: "FileLock \<Rightarrow> world \<Rightarrow> (FileLock \<times> world) attempt" where
  "acquire_iter l w =
     (case try_create l w of
        Pass \<Rightarrow> try_override l w
      | r \<Rightarrow> r)"

text \<open>
  The polling loop: \<open>start\<close> is the clock reading taken on entry, and each unsuccessful
  iteration sleeps for a tenth of a second.
\<close>

function acquire_loop ::
  "(world \<Rightarrow> world) \<Rightarrow> rat \<Rightarrow> FileLock \<Rightarrow> world \<Rightarrow> exn + (bool \<times> FileLock \<times> world)" where
  "acquire_loop env start l w =
     (if now w - start < timeout l then
        (case acquire_iter l w of
           Done (l', w') \<Rightarrow> Inr (True, l', w')
         | Raise e \<Rightarrow> Inl e
         | Pass \<Rightarrow> acquire_loop env start l (sleep env (1 / 10) w))
      else Inr (False, l, w))"
  by pat_completeness auto
termination
proof (relation "measure (\<lambda>(env, start, l, w). nat \<lceil>(start + timeout l - now w) * 10\<rceil>)")
  show "wf (measure (\<lambda>(env, start, l, w). nat \<lceil>(start + timeout l - now w) * 10\<rceil>))"
    by simp
next
  fix env :: "world \<Rightarrow> world" and start :: rat and l :: FileLock and w :: world
  assume a: "now w - start < timeout l"
  define x where "x = (start + timeout l - now w) * 10"
  have e: "(start + timeout l - now (sleep env (1 / 10) w)) * 10 = x - 1"
    by (simp add: x_def sleep_def algebra_simps)
  have p: "0 < \<lceil>x\<rceil>"
    using a by (simp add: x_def)
  have "\<lceil>x - 1\<rceil> = \<lceil>x\<rceil> - 1"
    by simp
  with p have "nat \<lceil>x - 1\<rceil> < nat \<lceil>x\<rceil>"
    by linarith
  then show "((env, start, l, sleep env (1 / 10) w), (env, start, l, w))
      \<in> measure (\<lambda>(env, start, l, w). nat \<lceil>(start + timeout l - now w) * 10\<rceil>)"
    unfolding in_measure prod.case e x_def [symmetric] .
qed

declare acquire_loop.simps [simp del]

definition acquire ::
  "(world \<Rightarrow> world) \<Rightarrow> FileLock \<Rightarrow> world \<Rightarrow> exn + (bool \<times> FileLock \<times> world)" where
  "acquire env l w = acquire_loop env (now w) l w"

text \<open>
  \<open>release\<close>: the unlink is attempted only when this object's \<open>_acquired\<close> flag is set
  and the marker exists; an \<open>Exception\<close> of the unlink is swallowed, and the flag is
  cleared inside the \<open>if\<close> only.
\<close>

definition release :: "FileLock \<Rightarrow> world \<Rightarrow> exn + (FileLock \<times> world)" where
  "release l w =
     (if acquired l \<and> path_exists (lockfile l) w then
        (case unlink (lockfile l) w of
           Inr w' \<Rightarrow> Inr (l\<lparr>acquired := False\<rparr>, w')
         | Inl e \<Rightarrow> if is_Exception e then Inr (l\<lparr>acquired := False\<rparr>, w) else Inl e)
      else Inr (l, w))"


text \<open>
  The async context manager \<open>file_lock\<close>: a fresh lock object, \<open>TimeoutError\<close> when
  \<open>acquire\<close> returns \<open>False\<close>, and the release in the \<open>finally\<close> clause after the
  body, whatever the body returned or raised.
\<close>

definition file_lock ::
  "(world \<Rightarrow> world) \<Rightarrow> pystr \<Rightarrow> rat \<Rightarrow> bool \<Rightarrow> (world \<Rightarrow> (exn + 'a) \<times> world) \<Rightarrow> world
     \<Rightarrow> (exn + 'a) \<times> world" where
  "file_lock env fp t m body w =
     (case acquire env (FileLock_init fp t m) w of
        Inl e \<Rightarrow> (Inl e, w)
      | Inr (ok, l, w1) \<Rightarrow>
          if \<not> ok then (Inl (TimeoutError (ascii ''Could not acquire lock for '' @ fp)), w1)
          else (case body w1 of
                  (r, w2) \<Rightarrow>
                    (case release l w2 of
                       Inl e \<Rightarrow> (Inl e, w2)
                     | Inr (l', w3) \<Rightarrow> (r, w3))))"

subsection \<open>Several lock objects on one file system\<close>

text \<open>
  The cooperative single-thread schedule: between two suspension points exactly one task
  runs, so one iteration of a polling loop and one \<open>release\<close> are atomic steps. An action
  names the lock object that runs next; the label says what the step did.
\<close>

datatype action = Poll nat | Release nat | Advance rat

datatype event = Acquired pystr bool | Retried | Unlinked pystr | Idle | Raised exn

type_synonym system = "FileLock list \<times> world"

fun step :: "action \<Rightarrow> system \<Rightarrow> event \<times> system" where
  "step (Poll i) (ls, w) =
     (if i < length ls then
        (case acquire_iter (ls ! i) w of
           Done (l', w') \<Rightarrow> (Acquired (lockfile l') (is_main_agent l'), (ls[i := l'], w'))
         | Pass \<Rightarrow> (Retried, (ls, w))
         | Raise e \<Rightarrow> (Raised e, (ls, w)))
      else (Idle, (ls, w)))"
| "step (Release i) (ls, w) =
     (if i < length ls then
        (case release (ls ! i) w of
           Inr (l', w') \<Rightarrow>
             (if path_exists (lockfile l') w \<and> \<not> path_exists (lockfile l') w'
              then Unlinked (lockfile l') else Idle,
              (ls[i := l'], w'))
         | Inl e \<Rightarrow> (Raised e, (ls, w)))
      else (Idle, (ls, w)))"
| "step (Advance d) (ls, w) = (Idle, (ls, w\<lparr>now := now w + d\<rparr>))"

fun run :: "action list \<Rightarrow> system \<Rightarrow> event list \<times> system" where
  "run [] s = ([], s)"
| "run (a # as) s =
     (case step a s of
        (e, s') \<Rightarrow> (case run as s' of (es, s'') \<Rightarrow> (e # es, s'')))"

section \<open>LockedWriteFileTool (nanobot/agent/tools/selfagent\_tools.py)\<close>

text \<open>\<open>xs[-n:]\<close> for a positive \<open>n\<close>, and \<open>xs[:n]\<close> is \<open>take n xs\<close>.\<close>

definition py_last :: "nat \<Rightarrow> 'a list \<Rightarrow> 'a list" where
  "py_last n xs = drop (length xs - n) xs"

text \<open>
  \<open>str.lower()\<close>: an ASCII character is mapped on its own, \<open>A\<close>-\<open>Z\<close> to \<open>a\<close>-\<open>z\<close>. What
  Python's Unicode tables do to a character beyond ASCII is the parameter \<open>f\<close>, which
  sees the characters before and after it.
\<close>

fun lower_from :: "(pystr \<Rightarrow> nat \<Rightarrow> pystr \<Rightarrow> pystr) \<Rightarrow> pystr \<Rightarrow> pystr \<Rightarrow> pystr" where
  "lower_from f before [] = []"
| "lower_from f before (c # cs) =
     (if c < 128 then [if 65 \<le> c \<and> c \<le> 90 then c + 32 else c] else f before c cs)
     @ lower_from f (before @ [c]) cs"

definition py_lower :: "(pystr \<Rightarrow> nat \<Rightarrow> pystr \<Rightarrow> pystr) \<Rightarrow> pystr \<Rightarrow> pystr" where
  "py_lower f s = lower_from f [] s"

text \<open>\<open>str.strip()\<close> removes the characters for which \<open>str.isspace\<close> holds at both ends.\<close>

definition is_space :: "nat \<Rightarrow> bool" where
  "is_space c \<longleftrightarrow>
     (9 \<le> c \<and> c \<le> 13) \<or> (28 \<le> c \<and> c \<le> 32) \<or> c = 133 \<or> c = 160 \<or> c = 5760 \<or>
     (8192 \<le> c \<and> c \<le> 8202) \<or> c = 8232 \<or> c = 8233 \<or> c = 8239 \<or> c = 8287 \<or> c = 12288"

definition py_strip :: "pystr \<Rightarrow> pystr" where
  "py_strip s = rev (dropWhile is_space (rev (dropWhile is_space s)))"

definition startswith :: "pystr \<Rightarrow> pystr \<Rightarrow> bool" where
  "startswith s p = prefix p s"

text \<open>The marker of an insight, U+6F5C U+610F U+8BC6 followed by a colon.\<close>

definition insight_prefix :: pystr where
  "insight_prefix = [28508, 24847, 35782, 58]"

text \<open>
  What \<open>_resolve_path\<close> and \<open>WriteFileTool.execute\<close> do is not in the source at hand
  (module \<open>nanobot.agent.tools.filesystem\<close>); they are parameters, together with the
  Unicode lowercasing table and the behaviour of the other tasks.
\<close>

record write_tool =
  resolve_path :: "pystr \<Rightarrow> exn + pystr"
  super_execute :: "pystr \<Rightarrow> pystr \<Rightarrow> world \<Rightarrow> (exn + pystr) \<times> world"
  lower_table :: "pystr \<Rightarrow> nat \<Rightarrow> pystr \<Rightarrow> pystr"
  others :: "world \<Rightarrow> world"
  tool_is_main_agent :: bool

text \<open>Lines 40-42: the content handed on to the write.\<close>

definition written_content :: "write_tool \<Rightarrow> pystr \<Rightarrow> pystr \<Rightarrow> pystr" where
  "written_content t fp content =
     (if py_in (ascii ''memory'') (py_lower (lower_table t) fp) \<and> py_in (ascii ''MEMORY.md'') fp
      then (if \<not> startswith (py_strip content) insight_prefix
            then insight_prefix @ ascii '' '' @ content
            else content)
      else content)"

definition LockedWriteFileTool_execute ::
  "write_tool \<Rightarrow> pystr \<Rightarrow> pystr \<Rightarrow> world \<Rightarrow> (exn + pystr) \<times> world" where
  "LockedWriteFileTool_execute t path content w =
     (case resolve_path t path of
        Inl e \<Rightarrow> (Inl e, w)
      | Inr fp \<Rightarrow>
          file_lock (others t) fp 10 (tool_is_main_agent t)
            (super_execute t path (written_content t fp content)) w)"

section \<open>SelfAgent (nanobot/agent/selfagent.py)\<close>

subsection \<open>State\<close>

text \<open>
  A bus message is any object; the monitor reads its optional \<open>channel\<close> attribute and
  its \<open>str()\<close>. A dictionary with string keys is an association list.
\<close>

record bus_msg =
  msg_channel :: "pystr option"
  msg_str :: pystr

type_synonym pydict = "(pystr \<times> pystr) list"

record message_event =
  m_timestamp :: pystr
  m_direction :: pystr
  m_channel :: pystr
  m_preview :: pystr

record state_event =
  s_timestamp :: pystr
  s_event :: pystr
  s_data :: pydict

text \<open>
  The fields of \<open>SelfAgentConfig\<close> that the loops read (the class itself is imported from
  \<open>nanobot.config.schema\<close>, which does not define it in the source at hand).
\<close>

record SelfAgentConfig =
  enabled :: bool
  model :: "pystr option"
  reflection_interval :: rat
  max_iterations :: int

text \<open>A line of the log, as the template of the call and its arguments.\<close>

datatype log_entry =
    LoopStarted rat
  | LoopCancelled
  | ReflectionError exn
  | MainAgentError pydict
  | Reflection pystr
  | Iteration nat pystr
  | ExecutingTool pystr
  | AgentLoopError nat exn

record SelfAgent =
  config :: SelfAgentConfig
  message_buffer :: "message_event list"
  state_buffer :: "state_event list"
  identity_content :: pystr
  soul_content :: pystr
  agents_content :: pystr
  tools_content :: pystr
  running :: bool
  logger :: "log_entry list"

definition SelfAgent_init ::
  "SelfAgentConfig \<Rightarrow> pystr \<Rightarrow> pystr \<Rightarrow> pystr \<Rightarrow> pystr \<Rightarrow> SelfAgent" where
  "SelfAgent_init cfg ident soul agents tools =
     \<lparr>config = cfg, message_buffer = [], state_buffer = [],
      identity_content = ident, soul_content = soul, agents_content = agents,
      tools_content = tools, running = False, logger = []\<rparr>"

subsection \<open>The observation buffers\<close>

text \<open>
  Each callback runs its whole body while it holds \<open>_buffer_lock\<close> and has no suspension
  point inside, so it is one function on the state. \<open>ts\<close> is
  \<open>datetime.now().isoformat()\<close>.
\<close>

text \<open>Lines 236-237 and 249-250: a buffer longer than 1000 is cut to its last 500 entries.\<close>

definition limit_buffer :: "'a list \<Rightarrow> 'a list" where
  "limit_buffer buf = (if length buf > 1000 then py_last 500 buf else buf)"

definition on_message :: "pystr \<Rightarrow> pystr \<Rightarrow> bus_msg \<Rightarrow> SelfAgent \<Rightarrow> SelfAgent" where
  "on_message ts direction msg a =
     a\<lparr>message_buffer := limit_buffer (message_buffer a @
          [\<lparr>m_timestamp = ts, m_direction = direction,
            m_channel = (case msg_channel msg of Some c \<Rightarrow> c | None \<Rightarrow> ascii ''unknown''),
            m_preview = take 300 (msg_str msg)\<rparr>])\<rparr>"

definition on_main_state_change :: "pystr \<Rightarrow> pystr \<Rightarrow> pydict \<Rightarrow> SelfAgent \<Rightarrow> SelfAgent" where
  "on_main_state_change ts ev data a =
     (let a1 = a\<lparr>state_buffer := limit_buffer (state_buffer a @
                  [\<lparr>s_timestamp = ts, s_event = ev, s_data = data\<rparr>])\<rparr>
      in if ev = ascii ''error'' then a1\<lparr>logger := logger a1 @ [MainAgentError data]\<rparr> else a1)"

datatype publication =
    PubMessage pystr pystr bus_msg
  | PubState pystr pystr pydict

fun publish :: "publication \<Rightarrow> SelfAgent \<Rightarrow> SelfAgent" where
  "publish (PubMessage ts direction msg) a = on_message ts direction msg a"
| "publish (PubState ts ev data) a = on_main_state_change ts ev data a"

fun publish_all :: "publication list \<Rightarrow> SelfAgent \<Rightarrow> SelfAgent" where
  "publish_all [] a = a"
| "publish_all (p # ps) a = publish_all ps (publish p a)"

text \<open>The events that a sequence of publishes appends to each buffer, in order.\<close>

fun message_events :: "publication list \<Rightarrow> message_event list" where
  "message_events [] = []"
| "message_events (PubMessage ts direction msg # ps) =
     \<lparr>m_timestamp = ts, m_direction = direction,
      m_channel = (case msg_channel msg of Some c \<Rightarrow> c | None \<Rightarrow> ascii ''unknown''),
      m_preview = take 300 (msg_str msg)\<rparr> # message_events ps"
| "message_events (PubState ts ev data # ps) = message_events ps"

fun state_events :: "publication list \<Rightarrow> state_event list" where
  "state_events [] = []"
| "state_events (PubState ts ev data # ps) =
     \<lparr>s_timestamp = ts, s_event = ev, s_data = data\<rparr> # state_events ps"
| "state_events (PubMessage ts direction msg # ps) = state_events ps"

text \<open>What a sequence of appends, each followed by the cut, makes of one buffer.\<close>

fun fill :: "'a list \<Rightarrow> 'a list \<Rightarrow> 'a list" where
  "fill buf [] = buf"
| "fill buf (e # es) = fill (limit_buffer (buf @ [e])) es"

text \<open>Lines 279-283: the snapshot of both buffers and their clearing, under the mutex.\<close>

definition drain :: "SelfAgent \<Rightarrow> (message_event list \<times> state_event list) \<times> SelfAgent" where
  "drain a = ((message_buffer a, state_buffer a), a\<lparr>message_buffer := [], state_buffer := []\<rparr>)"

subsection \<open>The reasoning provider and the tools\<close>

text \<open>
  The provider and the tool registry are outside the source at hand. Each is a function of
  the calls made so far (the trace) and of its arguments, so a stateful provider is covered,
  and every call is appended to the trace. \<open>json.dumps\<close> may raise on a value it cannot
  serialise.
\<close>

record tool_call =
  tc_id :: pystr
  tc_name :: pystr
  tc_arguments :: pydict

record response =
  content :: "pystr option"
  has_tool_calls :: bool
  tool_calls :: "tool_call list"

datatype chat_msg = ChatMsg pystr pystr | ToolMsg pystr pystr

datatype call = ChatCall "chat_msg list" | ToolCall pystr pydict

record deps =
  chat :: "call list \<Rightarrow> chat_msg list \<Rightarrow> exn + response"
  tools_execute :: "call list \<Rightarrow> pystr \<Rightarrow> pydict \<Rightarrow> exn + pystr"
  dumps_messages :: "message_event list \<Rightarrow> exn + pystr"
  dumps_states :: "state_event list \<Rightarrow> exn + pystr"

subsection \<open>The tool-calling loop\<close>

text \<open>Lines 359-370: the tool calls of one response, in order.\<close>

fun exec_tool_calls ::
  "deps \<Rightarrow> tool_call list \<Rightarrow> chat_msg list \<Rightarrow> log_entry list \<Rightarrow> call list
     \<Rightarrow> (exn + chat_msg list) \<times> log_entry list \<times> call list" where
  "exec_tool_calls d [] msgs lg tr = (Inr msgs, lg, tr)"
| "exec_tool_calls d (tc # tcs) msgs lg tr =
     (case tools_execute d tr (tc_name tc) (tc_arguments tc) of
        Inl e \<Rightarrow>
          (Inl e, lg @ [ExecutingTool (tc_name tc)],
           tr @ [ToolCall (tc_name tc) (tc_arguments tc)])
      | Inr result \<Rightarrow>
          exec_tool_calls d tcs (msgs @ [ToolMsg (tc_id tc) result])
            (lg @ [ExecutingTool (tc_name tc)])
            (tr @ [ToolCall (tc_name tc) (tc_arguments tc)]))"

text \<open>
  The \<open>except Exception\<close> clause of an iteration logs the error and raises it again; a
  \<open>CancelledError\<close> passes it by.
\<close>

definition log_loop_error :: "nat \<Rightarrow> exn \<Rightarrow> log_entry list \<Rightarrow> log_entry list" where
  "log_loop_error i e lg = (if is_Exception e then lg @ [AgentLoopError i e] else lg)"

text \<open>
  The \<open>for\<close> loop over \<open>range(max_iterations)\<close>: \<open>k\<close> iterations are left and \<open>i\<close>
  have been made.
\<close>

fun agent_iterations ::
  "deps \<Rightarrow> nat \<Rightarrow> nat \<Rightarrow> chat_msg list \<Rightarrow> log_entry list \<Rightarrow> call list
     \<Rightarrow> (exn + pystr) \<times> log_entry list \<times> call list" where
  "agent_iterations d 0 i msgs lg tr = (Inr (ascii ''Max iterations reached''), lg, tr)"
| "agent_iterations d (Suc k) i msgs lg tr =
     (case chat d tr msgs of
        Inl e \<Rightarrow> (Inl e, log_loop_error (i + 1) e lg, tr @ [ChatCall msgs])
      | Inr r \<Rightarrow>
          (let lg1 = lg @ [Iteration (i + 1)
                 (case content r of
                    None \<Rightarrow> ascii ''no content''
                  | Some c \<Rightarrow> if c = [] then ascii ''no content'' else take 100 c)];
               tr1 = tr @ [ChatCall msgs]
           in if \<not> has_tool_calls r
              then (Inr (case content r of None \<Rightarrow> [] | Some c \<Rightarrow> c), lg1, tr1)
              else (case exec_tool_calls d (tool_calls r) msgs lg1 tr1 of
                      (Inl e, lg2, tr2) \<Rightarrow> (Inl e, log_loop_error (i + 1) e lg2, tr2)
                    | (Inr msgs', lg2, tr2) \<Rightarrow> agent_iterations d k (i + 1) msgs' lg2 tr2)))"

definition run_agent_loop ::
  "deps \<Rightarrow> SelfAgent \<Rightarrow> pystr \<Rightarrow> pystr \<Rightarrow> call list \<Rightarrow> (exn + pystr) \<times> SelfAgent \<times> call list" where
  "run_agent_loop d a system_prompt user_prompt tr =
     (case agent_iterations d (nat (max_iterations (config a))) 0
             [ChatMsg (ascii ''system'') system_prompt, ChatMsg (ascii ''user'') user_prompt]
             (logger a) tr of
        (r, lg, tr') \<Rightarrow> (r, a\<lparr>logger := lg\<rparr>, tr'))"

text \<open>The number of provider calls in a trace.\<close>

definition chat_calls :: "call list \<Rightarrow> nat" where
  "chat_calls tr = length (filter (\<lambda>c. case c of ChatCall _ \<Rightarrow> True | ToolCall _ _ \<Rightarrow> False) tr)"

subsection \<open>The reflection cycle and its scheduler\<close>

fun py_join :: "pystr \<Rightarrow> pystr list \<Rightarrow> pystr" where
  "py_join sep [] = []"
| "py_join sep [x] = x"
| "py_join sep (x # y # ys) = x @ sep @ py_join sep (y # ys)"

definition build_system_prompt :: "SelfAgent \<Rightarrow> pystr" where
  "build_system_prompt a =
     py_join [10, 10]
       [identity_content a, soul_content a, agents_content a, tools_content a,
        [],
        ascii ''# SelfAgent Instructions'',
        ascii ''You are an internal monitoring agent.'',
        ascii ''You observe the main agent'' @ [39] @
          ascii ''s activities and can influence it through memory files.'',
        [],
        ascii ''When writing insights to MEMORY.md, use this format:'',
        insight_prefix @ ascii '' [your insight here]'',
        [],
        ascii ''Available tools: read_file, write_file, edit_file, list_dir, web_search, web_fetch'']"

definition build_reflection_prompt ::
  "deps \<Rightarrow> message_event list \<Rightarrow> state_event list \<Rightarrow> exn + pystr" where
  "build_reflection_prompt d messages states =
     (case dumps_messages d (py_last 20 messages) of
        Inl e \<Rightarrow> Inl e
      | Inr jm \<Rightarrow>
          (case dumps_states d (py_last 20 states) of
             Inl e \<Rightarrow> Inl e
           | Inr js \<Rightarrow>
               Inr (ascii ''Please reflect on the main agent'' @ [39] @
                    ascii ''s recent activity:'' @ [10, 10] @
                    ascii ''## Messages Observed ('' @ str_nat (length messages) @
                    ascii '' total)'' @ [10] @ jm @ [10, 10] @
                    ascii ''## State Changes ('' @ str_nat (length states) @
                    ascii '' total)'' @ [10] @ js @ [10, 10] @
                    ascii ''## Your Task'' @ [10] @
                    ascii ''1. Analyze patterns in the main agent'' @ [39] @
                    ascii ''s behavior'' @ [10] @
                    ascii ''2. Identify any issues or inefficiencies'' @ [10] @
                    ascii ''3. Consider if you should add insights to MEMORY.md'' @ [10] @
                    ascii ''4. Use your tools to read files if needed'' @ [10, 10] @
                    ascii ''Remember: When writing to MEMORY.md, start with '' @ [39] @
                    insight_prefix @ [39])))"

definition log_reflection :: "pystr \<Rightarrow> SelfAgent \<Rightarrow> SelfAgent" where
  "log_reflection msg a = a\<lparr>logger := logger a @ [Reflection msg]\<rparr>"

definition perform_reflection ::
  "deps \<Rightarrow> SelfAgent \<Rightarrow> call list \<Rightarrow> (exn + unit) \<times> SelfAgent \<times> call list" where
  "perform_reflection d a tr =
     (case drain a of
        ((messages, states), a1) \<Rightarrow>
          if messages = [] \<and> states = [] then (Inr (), a1, tr)
          else
            (let a2 = log_reflection
                   (ascii ''Analyzing '' @ str_nat (length messages) @ ascii '' messages, '' @
                    str_nat (length states) @ ascii '' states'') a1
             in case build_reflection_prompt d messages states of
                  Inl e \<Rightarrow> (Inl e, a2, tr)
                | Inr user_prompt \<Rightarrow>
                    (case run_agent_loop d a2 (build_system_prompt a2) user_prompt tr of
                       (Inl e, a3, tr') \<Rightarrow> (Inl e, a3, tr')
                     | (Inr result, a3, tr') \<Rightarrow>
                         (Inr (),
                          log_reflection (ascii ''Completed: '' @ take 100 result @ ascii ''...'') a3,
                          tr'))))"





section \<open>Properties of FileLock\<close>

subsection \<open>Strings and markers\<close>

lemma py_in_sublist: "py_in n h \<longleftrightarrow> sublist n h"
  by (induction h) (simp_all add: sublist_Cons_right)

lemma role_tag_is_suffix: "suffix (role_tag c) c"
proof -
  have "rev c = takeWhile (\<lambda>x. x \<noteq> 124) (rev c) @ dropWhile (\<lambda>x. x \<noteq> 124) (rev c)"
    by simp
  then have "c = rev (dropWhile (\<lambda>x. x \<noteq> 124) (rev c)) @ role_tag c"
    unfolding role_tag_def by (metis rev_append rev_rev_ident)
  then show ?thesis
    unfolding suffix_def ..
qed

lemma role_tag_py_in: "role_tag c = t \<Longrightarrow> py_in t c"
  using role_tag_is_suffix [of c] by (auto simp: py_in_sublist)

lemma role_tag_last_field: "124 \<notin> set t \<Longrightarrow> role_tag (p @ 124 # t) = t"
  by (simp add: role_tag_def takeWhile_append)

lemma role_tag_marker_content:
  "role_tag (marker_content w m) = (if m then ascii ''main'' else ascii ''selfagent'')"
proof -
  have "marker_content w m =
      (str_nat (pid w) @ ascii ''|'' @ str_float w (now w)) @
      124 # (if m then ascii ''main'' else ascii ''selfagent'')"
    by (simp add: marker_content_def ascii_def)
  moreover have "124 \<notin> set (if m then ascii ''main'' else ascii ''selfagent'')"
    by (simp add: ascii_def)
  ultimately show ?thesis
    using role_tag_last_field by presburger
qed

subsection \<open>The polling loop\<close>

lemma now_sleep_funpow: "now ((sleep env d ^^ k) w) = now w + of_nat k * d"
  by (induction k) (simp_all add: sleep_def algebra_simps)

lemma of_int_ceiling_le_nat: "of_int \<lceil>x :: rat\<rceil> \<le> (of_nat (nat \<lceil>x\<rceil>) :: rat)"
  by (cases "0 \<le> \<lceil>x\<rceil>") simp_all

text \<open>
  A loop whose every iteration falls through to the sleep polls until the timeout has
  elapsed and returns \<open>False\<close>; the world it leaves is the one the sleeps produced.
\<close>

lemma acquire_loop_all_pass:
  "(\<And>v. P v \<Longrightarrow> acquire_iter l v = Pass \<and> P (sleep env (1 / 10) v)) \<Longrightarrow> P w \<Longrightarrow>
   acquire_loop env start l w =
      Inr (False, l, (sleep env (1 / 10) ^^ nat \<lceil>(start + timeout l - now w) * 10\<rceil>) w)"
proof (induction env start l w rule: acquire_loop.induct)
  case (1 env start l w)
  define x where "x = (start + timeout l - now w) * 10"
  show ?case
  proof (cases "now w - start < timeout l")
    case True
    have pass: "acquire_iter l w = Pass"
      using "1.prems" by blast
    have P': "P (sleep env (1 / 10) w)"
      using "1.prems" by blast
    have e: "(start + timeout l - now (sleep env (1 / 10) w)) * 10 = x - 1"
      by (simp add: x_def sleep_def algebra_simps)
    have p: "0 < \<lceil>x\<rceil>"
      using True by (simp add: x_def)
    have "\<lceil>x - 1\<rceil> = \<lceil>x\<rceil> - 1"
      by simp
    with p have k: "nat \<lceil>x\<rceil> = Suc (nat \<lceil>x - 1\<rceil>)"
      by linarith
    have "acquire_loop env start l w = acquire_loop env start l (sleep env (1 / 10) w)"
      using True pass by (subst acquire_loop.simps) simp
    also have "\<dots> = Inr (False, l, (sleep env (1 / 10) ^^ nat \<lceil>x - 1\<rceil>) (sleep env (1 / 10) w))"
      using "1.IH" [OF True pass "1.prems"(1) P'] unfolding e by blast
    also have "\<dots> = Inr (False, l, (sleep env (1 / 10) ^^ nat \<lceil>x\<rceil>) w)"
      unfolding k by (simp add: funpow_swap1)
    finally show ?thesis
      unfolding x_def .
  next
    case False
    then have "x \<le> 0"
      by (simp add: x_def)
    then have "nat \<lceil>x\<rceil> = 0"
      by simp
    moreover have "acquire_loop env start l w = Inr (False, l, w)"
      using False by (subst acquire_loop.simps) simp
    ultimately show ?thesis
      unfolding x_def by simp
  qed
qed

lemma timeout_elapsed:
  "timeout l \<le> now ((sleep env (1 / 10) ^^ nat \<lceil>timeout l * 10\<rceil>) w) - now w"
proof -
  have "timeout l * 10 \<le> of_int \<lceil>timeout l * 10\<rceil>"
    by (rule le_of_int_ceiling)
  also have "\<dots> \<le> of_nat (nat \<lceil>timeout l * 10\<rceil>)"
    by (rule of_int_ceiling_le_nat)
  finally have "timeout l \<le> of_nat (nat \<lceil>timeout l * 10\<rceil>) * (1 / 10)"
    by simp
  then show ?thesis
    by (simp add: now_sleep_funpow)
qed

lemma acquire_iter_subordinate_blocked:
  "\<not> is_main_agent l \<Longrightarrow> path_exists (lockfile l) w \<Longrightarrow> acquire_iter l w = Pass"
  by (simp add: acquire_iter_def try_create_def try_override_def)

lemma acquire_iter_override:
  assumes "is_main_agent l" "files w (lockfile l) = Some c" "py_in (ascii ''selfagent'') c"
    "lockfile l \<notin> read_denied w" "lockfile l \<notin> write_denied w"
  shows "acquire_iter l w =
    Done (l\<lparr>acquired := True\<rparr>, w\<lparr>files := (files w)(lockfile l \<mapsto> marker_content w True)\<rparr>)"
  using assms
  by (simp add: acquire_iter_def try_create_def try_override_def path_exists_def
      read_text_def write_text_def)

subsection \<open>Priority override\<close>

text \<open>
  Claim C1. A call of \<open>acquire\<close> by the main agent (\<open>is_main_agent\<close>) while the marker
  exists with role tag \<open>selfagent\<close> succeeds in the first iteration of the polling loop:
  the clock of the resulting world is the clock at the call, so no sleep took place, and
  the marker has been overwritten with a record whose role tag is \<open>main\<close>. This holds
  whatever the other tasks do (\<open>env\<close>), for a positive timeout (the loop is entered) and
  a marker that can be read and written. A call by the subordinate while the marker is
  held with role tag \<open>main\<close>, and is left alone by the others during the wait, never
  writes the marker and returns \<open>False\<close>; the world it returns is the one produced by
  its sleeps alone, and at least \<open>timeout\<close> seconds have passed.
\<close>

theorem priority_override:
  "(is_main_agent l \<and> 0 < timeout l \<and> files w (lockfile l) = Some c \<and>
    role_tag c = ascii ''selfagent'' \<and>
    lockfile l \<notin> read_denied w \<and> lockfile l \<notin> write_denied w \<longrightarrow>
      (\<exists>w'. acquire env l w = Inr (True, l\<lparr>acquired := True\<rparr>, w') \<and> now w' = now w \<and>
            (\<exists>c'. files w' (lockfile l) = Some c' \<and> role_tag c' = ascii ''main''))) \<and>
   (\<not> is_main_agent l \<and> files w (lockfile l) = Some c \<and> role_tag c = ascii ''main'' \<and>
    (\<forall>v. files (env v) (lockfile l) = files v (lockfile l)) \<longrightarrow>
      (\<exists>w'. acquire env l w = Inr (False, l, w') \<and> files w' (lockfile l) = Some c \<and>
            w' = (sleep env (1 / 10) ^^ nat \<lceil>timeout l * 10\<rceil>) w \<and>
            timeout l \<le> now w' - now w))"
proof (intro conjI impI)
  assume h: "is_main_agent l \<and> 0 < timeout l \<and> files w (lockfile l) = Some c \<and>
    role_tag c = ascii ''selfagent'' \<and>
    lockfile l \<notin> read_denied w \<and> lockfile l \<notin> write_denied w"
  then have "py_in (ascii ''selfagent'') c"
    using role_tag_py_in by blast
  with h have it: "acquire_iter l w =
      Done (l\<lparr>acquired := True\<rparr>, w\<lparr>files := (files w)(lockfile l \<mapsto> marker_content w True)\<rparr>)"
    using acquire_iter_override by blast
  have "acquire env l w =
      Inr (True, l\<lparr>acquired := True\<rparr>, w\<lparr>files := (files w)(lockfile l \<mapsto> marker_content w True)\<rparr>)"
    unfolding acquire_def using h it by (subst acquire_loop.simps) simp
  then show "\<exists>w'. acquire env l w = Inr (True, l\<lparr>acquired := True\<rparr>, w') \<and> now w' = now w \<and>
            (\<exists>c'. files w' (lockfile l) = Some c' \<and> role_tag c' = ascii ''main'')"
    by (simp add: role_tag_marker_content)
next
  assume h: "\<not> is_main_agent l \<and> files w (lockfile l) = Some c \<and> role_tag c = ascii ''main'' \<and>
    (\<forall>v. files (env v) (lockfile l) = files v (lockfile l))"
  define P where "P v \<longleftrightarrow> files v (lockfile l) = Some c" for v :: world
  have step: "\<And>v. P v \<Longrightarrow> acquire_iter l v = Pass \<and> P (sleep env (1 / 10) v)"
    using h by (simp add: P_def acquire_iter_subordinate_blocked path_exists_def sleep_def)
  have Pk: "P ((sleep env (1 / 10) ^^ k) w)" for k
    using h by (induction k) (simp_all add: P_def sleep_def)
  define n where "n = nat \<lceil>timeout l * 10\<rceil>"
  have "P w"
    using h by (simp add: P_def)
  then have r: "acquire env l w = Inr (False, l, (sleep env (1 / 10) ^^ n) w)"
    unfolding acquire_def n_def using acquire_loop_all_pass [of P l env w "now w"] step by simp
  have "timeout l \<le> now ((sleep env (1 / 10) ^^ n) w) - now w"
    unfolding n_def by (rule timeout_elapsed)
  with r Pk [of n] show "\<exists>w'. acquire env l w = Inr (False, l, w') \<and> files w' (lockfile l) = Some c \<and>
            w' = (sleep env (1 / 10) ^^ nat \<lceil>timeout l * 10\<rceil>) w \<and>
            timeout l \<le> now w' - now w"
    by (simp add: P_def n_def)
qed

theorem priority_override_witness:
  "(let l = FileLock_init (ascii ''MEMORY.md'') 5 True;
        c = ascii ''7|1.5|selfagent'';
        w = \<lparr>files = [lockfile l \<mapsto> c], now = 2, pid = 9, str_float = (\<lambda>t. ascii ''2.0''),
             read_denied = {}, write_denied = {}, unlink_denied = {}\<rparr>
    in (is_main_agent l \<and> 0 < timeout l \<and> files w (lockfile l) = Some c \<and>
        role_tag c = ascii ''selfagent'' \<and>
        lockfile l \<notin> read_denied w \<and> lockfile l \<notin> write_denied w) \<and>
       (\<exists>w'. acquire id l w = Inr (True, l\<lparr>acquired := True\<rparr>, w') \<and> now w' = now w \<and>
            (\<exists>c'. files w' (lockfile l) = Some c' \<and> role_tag c' = ascii ''main''))) \<and>
   (let l = FileLock_init (ascii ''MEMORY.md'') 5 False;
        c = ascii ''9|2.0|main'';
        w = \<lparr>files = [lockfile l \<mapsto> c], now = 2, pid = 9, str_float = (\<lambda>t. ascii ''2.0''),
             read_denied = {}, write_denied = {}, unlink_denied = {}\<rparr>
    in (\<not> is_main_agent l \<and> files w (lockfile l) = Some c \<and> role_tag c = ascii ''main'' \<and>
        (\<forall>v. files (id v) (lockfile l) = files v (lockfile l))) \<and>
       (\<exists>w'. acquire id l w = Inr (False, l, w') \<and> files w' (lockfile l) = Some c \<and>
            w' = (sleep id (1 / 10) ^^ nat \<lceil>timeout l * 10\<rceil>) w \<and>
            timeout l \<le> now w' - now w))"
proof -
  let ?l1 = "FileLock_init (ascii ''MEMORY.md'') 5 True"
  let ?c1 = "ascii ''7|1.5|selfagent''"
  let ?w1 = "\<lparr>files = [lockfile ?l1 \<mapsto> ?c1], now = 2, pid = 9, str_float = (\<lambda>t. ascii ''2.0''),
             read_denied = {}, write_denied = {}, unlink_denied = {}\<rparr>"
  let ?l2 = "FileLock_init (ascii ''MEMORY.md'') 5 False"
  let ?c2 = "ascii ''9|2.0|main''"
  let ?w2 = "\<lparr>files = [lockfile ?l2 \<mapsto> ?c2], now = 2, pid = 9, str_float = (\<lambda>t. ascii ''2.0''),
             read_denied = {}, write_denied = {}, unlink_denied = {}\<rparr>"
  have r1: "role_tag ?c1 = ascii ''selfagent''"
    by (simp add: role_tag_def ascii_def)
  have r2: "role_tag ?c2 = ascii ''main''"
    by (simp add: role_tag_def ascii_def)
  have h1: "is_main_agent ?l1 \<and> 0 < timeout ?l1 \<and> files ?w1 (lockfile ?l1) = Some ?c1 \<and>
        role_tag ?c1 = ascii ''selfagent'' \<and>
        lockfile ?l1 \<notin> read_denied ?w1 \<and> lockfile ?l1 \<notin> write_denied ?w1"
    using r1 by (simp add: FileLock_init_def)
  have h2: "\<not> is_main_agent ?l2 \<and> files ?w2 (lockfile ?l2) = Some ?c2 \<and>
        role_tag ?c2 = ascii ''main'' \<and>
        (\<forall>v. files (id v) (lockfile ?l2) = files v (lockfile ?l2))"
    using r2 by (simp add: FileLock_init_def)
  have c1: "\<exists>w'. acquire id ?l1 ?w1 = Inr (True, ?l1\<lparr>acquired := True\<rparr>, w') \<and> now w' = now ?w1 \<and>
            (\<exists>c'. files w' (lockfile ?l1) = Some c' \<and> role_tag c' = ascii ''main'')"
    using priority_override [of ?l1 ?w1 ?c1 id, THEN conjunct1] h1 by (rule mp)
  have c2: "\<exists>w'. acquire id ?l2 ?w2 = Inr (False, ?l2, w') \<and> files w' (lockfile ?l2) = Some ?c2 \<and>
            w' = (sleep id (1 / 10) ^^ nat \<lceil>timeout ?l2 * 10\<rceil>) ?w2 \<and>
            timeout ?l2 \<le> now w' - now ?w2"
    using priority_override [of ?l2 ?w2 ?c2 id, THEN conjunct2] h2 by (rule mp)
  show ?thesis
    unfolding Let_def by (rule conjI, rule conjI, rule h1, rule c1, rule conjI, rule h2, rule c2)
qed

subsection \<open>Mutual exclusion among subordinate callers\<close>

lemma acquire_iter_Done:
  "acquire_iter l w = Done (l', w') \<Longrightarrow>
   l' = l\<lparr>acquired := True\<rparr> \<and> (\<exists>c. w' = w\<lparr>files := (files w)(lockfile l \<mapsto> c)\<rparr>) \<and>
   (\<not> is_main_agent l \<longrightarrow> \<not> path_exists (lockfile l) w)"
  by (auto simp: acquire_iter_def try_create_def try_override_def write_text_def
      split: if_splits sum.splits attempt.splits)

lemma release_result:
  "release l w = Inr (l', w') \<Longrightarrow>
   lockfile l' = lockfile l \<and> (w' = w \<or> w' = w\<lparr>files := (files w)(lockfile l := None)\<rparr>)"
  by (auto simp: release_def unlink_def split: if_splits sum.splits option.splits)

lemma step_poll_acquired:
  "step (Poll i) s = (Acquired p m, s') \<Longrightarrow> path_exists p (snd s')"
proof (cases s)
  case (Pair ls w)
  assume a: "step (Poll i) s = (Acquired p m, s')"
  then obtain l' w' where d: "acquire_iter (ls ! i) w = Done (l', w')"
    and p: "p = lockfile l'" and s': "s' = (ls[i := l'], w')"
    unfolding Pair by (auto split: if_splits attempt.splits)
  from acquire_iter_Done [OF d] show ?thesis
    unfolding p s' by (auto simp: path_exists_def)
qed

lemma step_keeps_marker:
  "path_exists p (snd s) \<Longrightarrow> step a s = (e, s') \<Longrightarrow> e \<noteq> Unlinked p \<Longrightarrow> path_exists p (snd s')"
proof (cases s)
  case (Pair ls w)
  assume ex: "path_exists p (snd s)" and st: "step a s = (e, s')" and e: "e \<noteq> Unlinked p"
  show ?thesis
  proof (cases a)
    case (Poll i)
    show ?thesis
      using ex st acquire_iter_Done [of "ls ! i" w] unfolding Pair Poll
      by (auto simp: path_exists_def split: if_splits attempt.splits)
  next
    case (Release i)
    show ?thesis
      using ex st e release_result [of "ls ! i" w] unfolding Pair Release
      by (auto simp: path_exists_def split: if_splits sum.splits)
  next
    case (Advance d)
    show ?thesis
      using ex st unfolding Pair Advance by (auto simp: path_exists_def)
  qed
qed

lemma subordinate_poll_blocked:
  "path_exists p (snd s) \<Longrightarrow> step (Poll i) s \<noteq> (Acquired p False, s')"
proof (cases s)
  case (Pair ls w)
  assume ex: "path_exists p (snd s)"
  show ?thesis
  proof
    assume "step (Poll i) s = (Acquired p False, s')"
    then obtain l' w' where d: "acquire_iter (ls ! i) w = Done (l', w')"
      and p: "p = lockfile l'" and m: "\<not> is_main_agent l'"
      unfolding Pair by (auto split: if_splits attempt.splits)
    from acquire_iter_Done [OF d] p m have "\<not> path_exists p w"
      by auto
    with ex show False
      unfolding Pair by simp
  qed
qed

lemma run_keeps_marker:
  "path_exists p (snd s) \<Longrightarrow> run acts s = (evs, s') \<Longrightarrow> Unlinked p \<notin> set evs \<Longrightarrow>
   path_exists p (snd s')"
proof (induction acts arbitrary: s evs s')
  case Nil
  then show ?case by simp
next
  case (Cons a acts)
  obtain e s1 where st: "step a s = (e, s1)"
    by (cases "step a s")
  obtain es s2 where rn: "run acts s1 = (es, s2)"
    by (cases "run acts s1")
  from Cons.prems(2) st rn have evs: "evs = e # es" and s': "s' = s2"
    by simp_all
  from Cons.prems(3) evs have "e \<noteq> Unlinked p" and no: "Unlinked p \<notin> set es"
    by auto
  with Cons.prems(1) st have "path_exists p (snd s1)"
    using step_keeps_marker by blast
  from Cons.IH [OF this rn no] show ?case
    unfolding s' .
qed

text \<open>
  Claim C2. Under the cooperative schedule (any sequence of polling iterations, releases
  and clock advances by any lock objects), if a polling iteration of a subordinate lock
  object succeeds on the marker \<open>p\<close> and a later one does so too, then a release has
  unlinked \<open>p\<close> in between. While the marker exists, a polling iteration of a subordinate
  lock object is a retry that leaves the lock objects and the world as they are: it
  neither creates nor overwrites the marker. The marker is one file and holds one record,
  so there is at most one recorded holder of a resource at any instant.
\<close>

theorem subordinate_mutual_exclusion:
  "(step (Poll i) s1 = (Acquired p False, s2) \<and> run acts s2 = (evs, s3) \<and>
    step (Poll j) s3 = (Acquired p False, s4) \<longrightarrow> Unlinked p \<in> set evs) \<and>
   (k < length ls \<and> \<not> is_main_agent (ls ! k) \<and> path_exists (lockfile (ls ! k)) w \<longrightarrow>
      step (Poll k) (ls, w) = (Retried, (ls, w)))"
proof (intro conjI impI)
  assume h: "step (Poll i) s1 = (Acquired p False, s2) \<and> run acts s2 = (evs, s3) \<and>
    step (Poll j) s3 = (Acquired p False, s4)"
  show "Unlinked p \<in> set evs"
  proof (rule ccontr)
    assume no: "Unlinked p \<notin> set evs"
    from h have "path_exists p (snd s2)"
      using step_poll_acquired by blast
    with h no have "path_exists p (snd s3)"
      using run_keeps_marker by blast
    with h show False
      using subordinate_poll_blocked by blast
  qed
next
  assume "k < length ls \<and> \<not> is_main_agent (ls ! k) \<and> path_exists (lockfile (ls ! k)) w"
  then show "step (Poll k) (ls, w) = (Retried, (ls, w))"
    by (simp add: acquire_iter_subordinate_blocked)
qed

theorem subordinate_mutual_exclusion_witness:
  "(let w0 = \<lparr>files = Map.empty, now = 2, pid = 9, str_float = str_nat \<circ> nat \<circ> floor,
               read_denied = {}, write_denied = {}, unlink_denied = {}\<rparr>;
        s = FileLock_init (ascii ''MEMORY.md'') 5 False;
        p = ascii ''MEMORY.md.nanobot_lock'';
        w1 = w0\<lparr>files := [p \<mapsto> marker_content w0 False]\<rparr>
    in (step (Poll 0) ([s, s], w0) = (Acquired p False, ([s\<lparr>acquired := True\<rparr>, s], w1)) \<and>
        run [Poll 1, Release 0] ([s\<lparr>acquired := True\<rparr>, s], w1) =
          ([Retried, Unlinked p], ([s, s], w0)) \<and>
        step (Poll 1) ([s, s], w0) = (Acquired p False, ([s, s\<lparr>acquired := True\<rparr>], w1))) \<and>
       Unlinked p \<in> set [Retried, Unlinked p] \<and>
       (1 < length [s\<lparr>acquired := True\<rparr>, s] \<and>
        \<not> is_main_agent ([s\<lparr>acquired := True\<rparr>, s] ! 1) \<and>
        path_exists (lockfile ([s\<lparr>acquired := True\<rparr>, s] ! 1)) w1) \<and>
       step (Poll 1) ([s\<lparr>acquired := True\<rparr>, s], w1) =
         (Retried, ([s\<lparr>acquired := True\<rparr>, s], w1)))"
proof -
  let ?w0 = "\<lparr>files = Map.empty, now = 2, pid = 9, str_float = str_nat \<circ> nat \<circ> floor,
               read_denied = {}, write_denied = {}, unlink_denied = {}\<rparr>"
  let ?s = "FileLock_init (ascii ''MEMORY.md'') 5 False"
  let ?p = "ascii ''MEMORY.md.nanobot_lock''"
  let ?w1 = "?w0\<lparr>files := [?p \<mapsto> marker_content ?w0 False]\<rparr>"
  let ?ls = "[?s\<lparr>acquired := True\<rparr>, ?s]"
  have h1: "step (Poll 0) ([?s, ?s], ?w0) = (Acquired ?p False, (?ls, ?w1)) \<and>
        run [Poll 1, Release 0] (?ls, ?w1) = ([Retried, Unlinked ?p], ([?s, ?s], ?w0)) \<and>
        step (Poll 1) ([?s, ?s], ?w0) = (Acquired ?p False, ([?s, ?s\<lparr>acquired := True\<rparr>], ?w1))"
    by (simp add: acquire_iter_def try_create_def try_override_def path_exists_def
        write_text_def unlink_def release_def FileLock_init_def ascii_def)
  have h2: "1 < length ?ls \<and> \<not> is_main_agent (?ls ! 1) \<and> path_exists (lockfile (?ls ! 1)) ?w1"
    by (simp add: path_exists_def FileLock_init_def ascii_def)
  have c1: "Unlinked ?p \<in> set [Retried, Unlinked ?p]"
    using subordinate_mutual_exclusion
      [of 0 "([?s, ?s], ?w0)" ?p "(?ls, ?w1)" "[Poll 1, Release 0]" "[Retried, Unlinked ?p]"
          "([?s, ?s], ?w0)" 1 "([?s, ?s\<lparr>acquired := True\<rparr>], ?w1)", THEN conjunct1] h1
    by (rule mp)
  have c2: "step (Poll 1) (?ls, ?w1) = (Retried, (?ls, ?w1))"
    using subordinate_mutual_exclusion
      [of _ _ _ _ _ _ _ _ _ 1 ?ls ?w1, THEN conjunct2] h2
    by (rule mp)
  show ?thesis
    unfolding Let_def by (rule conjI, rule h1, rule conjI, rule c1, rule conjI, rule h2, rule c2)
qed

subsection \<open>Release\<close>

text \<open>
  \<open>release\<close> never raises, a lock object that has not acquired leaves everything as it
  is, and a second release after the first one changes nothing.
\<close>

lemma release_never_raises: "\<exists>l' w'. release l w = Inr (l', w')"
  by (auto simp: release_def unlink_def split: if_splits sum.splits option.splits)

lemma release_unacquired: "\<not> acquired l \<Longrightarrow> release l w = Inr (l, w)"
  by (simp add: release_def)

lemma release_twice:
  "release l w = Inr (l', w') \<Longrightarrow> path_exists (lockfile l) w \<or> \<not> acquired l \<Longrightarrow>
   release l' w' = Inr (l', w')"
  by (auto simp: release_def unlink_def split: if_splits sum.splits option.splits)

text \<open>The unlink does not look at what the marker holds.\<close>

lemma release_deletes_any_marker:
  "acquired l \<Longrightarrow> files w (lockfile l) = Some c \<Longrightarrow> lockfile l \<notin> unlink_denied w \<Longrightarrow>
   release l w = Inr (l\<lparr>acquired := False\<rparr>, w\<lparr>files := (files w)(lockfile l := None)\<rparr>)"
  by (simp add: release_def unlink_def path_exists_def)

text \<open>
  Claim C6. The claim asks that no release deletes a marker owned by another holder, in
  particular after an override. Evaluated on the code: the subordinate acquires the free
  resource, the main agent overrides (the marker now carries the role tag \<open>main\<close>), and
  the release of the displaced subordinate, whose \<open>_acquired\<close> flag is still set, unlinks
  the main agent's marker: the resource is free again while the main agent holds it.
\<close>

theorem displaced_release_deletes_main_marker:
  "(let w0 = \<lparr>files = Map.empty, now = 2, pid = 9, str_float = str_nat \<circ> nat \<circ> floor,
               read_denied = {}, write_denied = {}, unlink_denied = {}\<rparr>;
        s = FileLock_init (ascii ''MEMORY.md'') 5 False;
        m = FileLock_init (ascii ''MEMORY.md'') 5 True;
        w1 = w0\<lparr>files := [lockfile s \<mapsto> marker_content w0 False]\<rparr>;
        w2 = w0\<lparr>files := [lockfile m \<mapsto> marker_content w0 True]\<rparr>
    in acquire id s w0 = Inr (True, s\<lparr>acquired := True\<rparr>, w1) \<and>
       acquire id m w1 = Inr (True, m\<lparr>acquired := True\<rparr>, w2) \<and>
       role_tag (the (files w2 (lockfile m))) = ascii ''main'' \<and>
       release (s\<lparr>acquired := True\<rparr>) w2 = Inr (s, w0) \<and>
       files w0 (lockfile m) = None)"
  by (simp add: Let_def acquire_def acquire_loop.simps acquire_iter_def try_create_def
      try_override_def path_exists_def read_text_def write_text_def unlink_def release_def
      FileLock_init_def
      marker_content_def ascii_def str_nat.simps role_tag_def)

subsection \<open>Markers that cannot be read or are corrupt\<close>

lemma acquire_iter_main_blocked:
  "is_main_agent l \<Longrightarrow> path_exists (lockfile l) w \<Longrightarrow>
   lockfile l \<in> read_denied w \<or>
     (\<exists>c. files w (lockfile l) = Some c \<and> \<not> py_in (ascii ''selfagent'') c) \<Longrightarrow>
   acquire_iter l w = Pass"
  by (auto simp: acquire_iter_def try_create_def try_override_def read_text_def path_exists_def)

lemma acquire_main_blocked:
  assumes m: "is_main_agent l" and ex: "path_exists (lockfile l) w"
    and bad: "lockfile l \<in> read_denied w \<or>
     (\<exists>c. files w (lockfile l) = Some c \<and> \<not> py_in (ascii ''selfagent'') c)"
    and env: "\<forall>v. files (env v) (lockfile l) = files v (lockfile l) \<and>
        (lockfile l \<in> read_denied (env v) \<longleftrightarrow> lockfile l \<in> read_denied v)"
  shows "acquire env l w = Inr (False, l, (sleep env (1 / 10) ^^ nat \<lceil>timeout l * 10\<rceil>) w) \<and>
     files ((sleep env (1 / 10) ^^ nat \<lceil>timeout l * 10\<rceil>) w) (lockfile l) = files w (lockfile l)"
proof -
  define P where "P v \<longleftrightarrow> files v (lockfile l) = files w (lockfile l) \<and>
     (lockfile l \<in> read_denied v \<longleftrightarrow> lockfile l \<in> read_denied w)" for v :: world
  have keep: "P v \<Longrightarrow> P (sleep env (1 / 10) v)" for v
    using env by (simp add: P_def sleep_def)
  have pass: "P v \<Longrightarrow> acquire_iter l v = Pass" for v
    using m ex bad by (intro acquire_iter_main_blocked) (auto simp: P_def path_exists_def)
  have Pk: "P ((sleep env (1 / 10) ^^ k) w)" for k
    by (induction k) (simp_all add: keep, simp add: P_def)
  have "P w"
    by (simp add: P_def)
  then have "acquire env l w = Inr (False, l, (sleep env (1 / 10) ^^ nat \<lceil>timeout l * 10\<rceil>) w)"
    unfolding acquire_def
    using acquire_loop_all_pass [of P l env w "now w"] keep pass by simp
  with Pk [of "nat \<lceil>timeout l * 10\<rceil>"] show ?thesis
    by (simp add: P_def)
qed

text \<open>
  Claim C7, in the form the code satisfies. During an acquire by the main agent, a marker that cannot be read,
  or whose content does not contain \<open>selfagent\<close>, is not overwritten: the iteration falls
  through to the sleep with the marker untouched, and as long as the other tasks leave the
  marker and its readability as they are, the acquire returns \<open>False\<close> once the timeout
  has elapsed, the marker still in place.
\<close>

theorem unreadable_marker_left_alone:
  "is_main_agent l \<and> path_exists (lockfile l) w \<and>
   (lockfile l \<in> read_denied w \<or>
    (\<exists>c. files w (lockfile l) = Some c \<and> \<not> py_in (ascii ''selfagent'') c)) \<longrightarrow>
   acquire_iter l w = Pass \<and>
   ((\<forall>v. files (env v) (lockfile l) = files v (lockfile l) \<and>
         (lockfile l \<in> read_denied (env v) \<longleftrightarrow> lockfile l \<in> read_denied v)) \<longrightarrow>
    (\<exists>w'. acquire env l w = Inr (False, l, w') \<and>
          files w' (lockfile l) = files w (lockfile l) \<and> timeout l \<le> now w' - now w))"
proof (intro impI conjI)
  assume h: "is_main_agent l \<and> path_exists (lockfile l) w \<and>
   (lockfile l \<in> read_denied w \<or>
    (\<exists>c. files w (lockfile l) = Some c \<and> \<not> py_in (ascii ''selfagent'') c))"
  then show "acquire_iter l w = Pass"
    using acquire_iter_main_blocked by blast
  assume "\<forall>v. files (env v) (lockfile l) = files v (lockfile l) \<and>
         (lockfile l \<in> read_denied (env v) \<longleftrightarrow> lockfile l \<in> read_denied v)"
  with h have "acquire env l w =
       Inr (False, l, (sleep env (1 / 10) ^^ nat \<lceil>timeout l * 10\<rceil>) w) \<and>
     files ((sleep env (1 / 10) ^^ nat \<lceil>timeout l * 10\<rceil>) w) (lockfile l) = files w (lockfile l)"
    using acquire_main_blocked by blast
  then show "\<exists>w'. acquire env l w = Inr (False, l, w') \<and>
          files w' (lockfile l) = files w (lockfile l) \<and> timeout l \<le> now w' - now w"
    using timeout_elapsed [of l env w] by blast
qed

theorem unreadable_marker_left_alone_witness:
  "(let l = FileLock_init (ascii ''MEMORY.md'') 5 True;
        w = \<lparr>files = [lockfile l \<mapsto> ascii ''garbage''], now = 2, pid = 9,
             str_float = str_nat \<circ> nat \<circ> floor,
             read_denied = {}, write_denied = {}, unlink_denied = {}\<rparr>
    in (is_main_agent l \<and> path_exists (lockfile l) w \<and>
        (lockfile l \<in> read_denied w \<or>
         (\<exists>c. files w (lockfile l) = Some c \<and> \<not> py_in (ascii ''selfagent'') c))) \<and>
       acquire_iter l w = Pass \<and>
       (\<forall>v. files (id v) (lockfile l) = files v (lockfile l) \<and>
            (lockfile l \<in> read_denied (id v) \<longleftrightarrow> lockfile l \<in> read_denied v)) \<and>
       (\<exists>w'. acquire id l w = Inr (False, l, w') \<and>
             files w' (lockfile l) = files w (lockfile l) \<and> timeout l \<le> now w' - now w))"
proof -
  let ?l = "FileLock_init (ascii ''MEMORY.md'') 5 True"
  let ?w = "\<lparr>files = [lockfile ?l \<mapsto> ascii ''garbage''], now = 2, pid = 9,
             str_float = str_nat \<circ> nat \<circ> floor,
             read_denied = {}, write_denied = {}, unlink_denied = {}\<rparr>"
  have h: "is_main_agent ?l \<and> path_exists (lockfile ?l) ?w \<and>
        (lockfile ?l \<in> read_denied ?w \<or>
         (\<exists>c. files ?w (lockfile ?l) = Some c \<and> \<not> py_in (ascii ''selfagent'') c))"
    by (simp add: FileLock_init_def path_exists_def ascii_def)
  have e: "\<forall>v. files (id v) (lockfile ?l) = files v (lockfile ?l) \<and>
            (lockfile ?l \<in> read_denied (id v) \<longleftrightarrow> lockfile ?l \<in> read_denied v)"
    by simp
  note t = unreadable_marker_left_alone [of ?l ?w id, THEN mp, OF h]
  have c1: "acquire_iter ?l ?w = Pass"
    using t by (rule conjunct1)
  have c2: "\<exists>w'. acquire id ?l ?w = Inr (False, ?l, w') \<and>
             files w' (lockfile ?l) = files ?w (lockfile ?l) \<and> timeout ?l \<le> now w' - now ?w"
    using t [THEN conjunct2] e by (rule mp)
  show ?thesis
    unfolding Let_def by (rule conjI, rule h, rule conjI, rule c1, rule conjI, rule e, rule c2)
qed

text \<open>
  The claim as stated fails: the main agent, with a timeout of 0.3 seconds, faces first a
  marker it may not read and then a marker holding \<open>garbage\<close>. Both calls poll three
  times and return \<open>False\<close>, and the marker is the same afterwards.
\<close>

theorem unreadable_marker_overwritten_counterexample:
  "acquire id (FileLock_init (ascii ''MEMORY.md'') (3 / 10) True)
     \<lparr>files = [ascii ''MEMORY.md.nanobot_lock'' \<mapsto> ascii ''7|1.5|selfagent''],
      now = 2, pid = 9, str_float = str_nat \<circ> nat \<circ> floor,
      read_denied = {ascii ''MEMORY.md.nanobot_lock''}, write_denied = {}, unlink_denied = {}\<rparr>
   = Inr (False, FileLock_init (ascii ''MEMORY.md'') (3 / 10) True,
     \<lparr>files = [ascii ''MEMORY.md.nanobot_lock'' \<mapsto> ascii ''7|1.5|selfagent''],
      now = 23 / 10, pid = 9, str_float = str_nat \<circ> nat \<circ> floor,
      read_denied = {ascii ''MEMORY.md.nanobot_lock''}, write_denied = {}, unlink_denied = {}\<rparr>)
   \<and>
   acquire id (FileLock_init (ascii ''MEMORY.md'') (3 / 10) True)
     \<lparr>files = [ascii ''MEMORY.md.nanobot_lock'' \<mapsto> ascii ''garbage''],
      now = 2, pid = 9, str_float = str_nat \<circ> nat \<circ> floor,
      read_denied = {}, write_denied = {}, unlink_denied = {}\<rparr>
   = Inr (False, FileLock_init (ascii ''MEMORY.md'') (3 / 10) True,
     \<lparr>files = [ascii ''MEMORY.md.nanobot_lock'' \<mapsto> ascii ''garbage''],
      now = 23 / 10, pid = 9, str_float = str_nat \<circ> nat \<circ> floor,
      read_denied = {}, write_denied = {}, unlink_denied = {}\<rparr>)"
  by (simp add: acquire_def acquire_loop.simps acquire_iter_def try_create_def try_override_def
      path_exists_def read_text_def write_text_def FileLock_init_def sleep_def ascii_def)

section \<open>Properties of the observation buffers\<close>

lemma length_py_last: "length (py_last n xs) = min n (length xs)"
  by (simp add: py_last_def)

lemma py_last_suffix: "suffix (py_last n xs) xs"
  by (simp add: py_last_def suffix_drop)

lemma py_last_of_suffix: "suffix xs ys \<Longrightarrow> n \<le> length xs \<Longrightarrow> py_last n xs = py_last n ys"
  by (auto simp: py_last_def suffix_def)

lemma limit_buffer_bound: "length buf \<le> 1001 \<Longrightarrow> length (limit_buffer buf) \<le> 1000"
  by (simp add: limit_buffer_def length_py_last)

lemma limit_buffer_suffix: "suffix (limit_buffer buf) buf"
  by (simp add: limit_buffer_def py_last_suffix)

lemma limit_buffer_overflow:
  "1000 < length buf \<Longrightarrow> limit_buffer buf = py_last 500 buf \<and> length (limit_buffer buf) = 500"
  by (simp add: limit_buffer_def length_py_last)

lemma fill_append: "fill buf (xs @ ys) = fill (fill buf xs) ys"
  by (induction xs arbitrary: buf) simp_all

lemma fill_no_overflow: "length buf + length es \<le> 1000 \<Longrightarrow> fill buf es = buf @ es"
  by (induction es arbitrary: buf) (simp_all add: limit_buffer_def)

lemma fill_bound: "length buf \<le> 1000 \<Longrightarrow> length (fill buf es) \<le> 1000"
  by (induction es arbitrary: buf) (simp_all add: limit_buffer_bound)

lemma fill_suffix: "suffix (fill buf es) (buf @ es)"
proof (induction es arbitrary: buf)
  case Nil
  show ?case by simp
next
  case (Cons e es)
  have "suffix (fill (limit_buffer (buf @ [e])) es) (limit_buffer (buf @ [e]) @ es)"
    by (rule Cons.IH)
  moreover have "suffix (limit_buffer (buf @ [e]) @ es) ((buf @ [e]) @ es)"
    using limit_buffer_suffix [of "buf @ [e]"] by (simp only: same_suffix_suffix)
  ultimately show ?case
    by (metis append.assoc append_Cons append_Nil fill.simps(2) suffix_order.trans)
qed

lemma fill_1200:
  assumes "length es = 1200"
  shows "fill [] es = drop 501 es"
proof -
  have "drop 1000 es = (es ! 1000) # drop (Suc 1000) es"
    using assms by (intro Cons_nth_drop_Suc [symmetric]) simp
  then have split: "es = take 1000 es @ (es ! 1000) # drop 1001 es"
    by (metis append_take_drop_id Suc_eq_plus1 numeral_plus_one semiring_norm(5))
  define front where "front = take 1000 es @ [es ! 1000]"
  define rest where "rest = drop 1001 es"
  have es: "es = front @ rest"
    using split by (simp add: front_def rest_def)
  have lf: "length front = 1001" and lr: "length rest = 199"
    using assms by (simp_all add: front_def rest_def)
  have "fill [] (take 1000 es) = take 1000 es"
    using fill_no_overflow [of "[]" "take 1000 es"] by simp
  then have "fill [] front = limit_buffer front"
    by (simp add: front_def fill_append)
  also have "\<dots> = drop 501 front"
    using lf by (simp add: limit_buffer_def py_last_def)
  finally have f: "fill [] front = drop 501 front" .
  have "fill [] es = fill (drop 501 front) rest"
    by (simp only: es fill_append f)
  also have "\<dots> = drop 501 front @ rest"
    using lf lr by (intro fill_no_overflow) simp
  also have "\<dots> = drop 501 es"
    using lf by (simp add: es)
  finally show ?thesis .
qed

lemma message_buffer_publish:
  "message_buffer (publish p a) = fill (message_buffer a) (message_events [p])"
  by (cases p) (simp_all add: on_message_def on_main_state_change_def Let_def)

lemma state_buffer_publish:
  "state_buffer (publish p a) = fill (state_buffer a) (state_events [p])"
  by (cases p) (simp_all add: on_message_def on_main_state_change_def Let_def)

lemma message_events_Cons: "message_events (p # ps) = message_events [p] @ message_events ps"
  by (cases p) simp_all

lemma state_events_Cons: "state_events (p # ps) = state_events [p] @ state_events ps"
  by (cases p) simp_all

lemma message_events_append: "message_events (ps @ qs) = message_events ps @ message_events qs"
  by (induction ps rule: message_events.induct) simp_all

lemma state_events_append: "state_events (ps @ qs) = state_events ps @ state_events qs"
  by (induction ps rule: state_events.induct) simp_all

lemma message_buffer_publish_all:
  "message_buffer (publish_all ps a) = fill (message_buffer a) (message_events ps)"
proof (induction ps arbitrary: a)
  case Nil
  show ?case by simp
next
  case (Cons p ps)
  show ?case
    by (simp only: publish_all.simps Cons.IH message_buffer_publish
        message_events_Cons [of p ps] fill_append)
qed

lemma state_buffer_publish_all:
  "state_buffer (publish_all ps a) = fill (state_buffer a) (state_events ps)"
proof (induction ps arbitrary: a)
  case Nil
  show ?case by simp
next
  case (Cons p ps)
  show ?case
    by (simp only: publish_all.simps Cons.IH state_buffer_publish
        state_events_Cons [of p ps] fill_append)
qed


lemma message_events_replicate:
  "message_events (replicate n (PubMessage ts d m)) =
   replicate n \<lparr>m_timestamp = ts, m_direction = d,
      m_channel = (case msg_channel m of Some c \<Rightarrow> c | None \<Rightarrow> ascii ''unknown''),
      m_preview = take 300 (msg_str m)\<rparr>"
  by (induction n) simp_all

lemma state_events_replicate:
  "state_events (replicate n (PubState ts e d)) =
   replicate n \<lparr>s_timestamp = ts, s_event = e, s_data = d\<rparr>"
  by (induction n) simp_all

lemma fill_overflow_history:
  assumes "1000 < length (fill [] es @ es')" and "length es' = 1"
  shows "fill [] (es @ es') = py_last 500 (es @ es') \<and> length (fill [] (es @ es')) = 500"
proof -
  obtain e where es': "es' = [e]"
    using assms(2) by (cases es') simp_all
  have a: "fill [] (es @ es') = limit_buffer (fill [] es @ es')"
    by (simp add: fill_append es')
  have b: "limit_buffer (fill [] es @ es') = py_last 500 (fill [] es @ es')"
    and c: "length (limit_buffer (fill [] es @ es')) = 500"
    using limit_buffer_overflow [OF assms(1)] by blast+
  have "suffix (fill [] es @ es') (es @ es')"
    using fill_suffix [of "[]" es] by simp
  moreover have "500 \<le> length (fill [] es @ es')"
    using assms(1) by simp
  ultimately have d: "py_last 500 (fill [] es @ es') = py_last 500 (es @ es')"
    by (rule py_last_of_suffix)
  show ?thesis
    unfolding a using b c d by simp
qed

lemma length_message_events_single: "length (message_events [PubMessage ts d m]) = 1"
  by simp

lemma length_state_events_single: "length (state_events [PubState ts ev data]) = 1"
  by simp

text \<open>
  Claim C3. After any sequence of publishes into the buffers of a fresh agent, each
  buffer holds at most 1000 events (a callback is one atomic step, so these are the
  lengths seen outside the append). When a publish makes the length exceed 1000, the
  buffer afterwards has exactly 500 entries, and they are the last 500 events of the whole
  history of that stream, in the order of their publication.
\<close>

theorem bounded_buffers:
  "length (message_buffer (publish_all ps (SelfAgent_init cfg i s g t))) \<le> 1000 \<and>
   length (state_buffer (publish_all ps (SelfAgent_init cfg i s g t))) \<le> 1000 \<and>
   (1000 < length (message_buffer (publish_all ps (SelfAgent_init cfg i s g t))) + 1 \<longrightarrow>
      message_buffer (publish_all (ps @ [PubMessage ts d m]) (SelfAgent_init cfg i s g t)) =
        py_last 500 (message_events (ps @ [PubMessage ts d m])) \<and>
      length (message_buffer
        (publish_all (ps @ [PubMessage ts d m]) (SelfAgent_init cfg i s g t))) = 500) \<and>
   (1000 < length (state_buffer (publish_all ps (SelfAgent_init cfg i s g t))) + 1 \<longrightarrow>
      state_buffer (publish_all (ps @ [PubState ts ev data]) (SelfAgent_init cfg i s g t)) =
        py_last 500 (state_events (ps @ [PubState ts ev data])) \<and>
      length (state_buffer
        (publish_all (ps @ [PubState ts ev data]) (SelfAgent_init cfg i s g t))) = 500)"
proof -
  have m0: "message_buffer (SelfAgent_init cfg i s g t) = []"
    and s0: "state_buffer (SelfAgent_init cfg i s g t) = []"
    by (simp_all add: SelfAgent_init_def)
  have b1: "length (message_buffer (publish_all ps (SelfAgent_init cfg i s g t))) \<le> 1000"
    by (simp add: message_buffer_publish_all fill_bound m0)
  have b2: "length (state_buffer (publish_all ps (SelfAgent_init cfg i s g t))) \<le> 1000"
    by (simp add: state_buffer_publish_all fill_bound s0)
  have o1: "message_buffer (publish_all (ps @ [PubMessage ts d m]) (SelfAgent_init cfg i s g t)) =
        py_last 500 (message_events (ps @ [PubMessage ts d m])) \<and>
      length (message_buffer
        (publish_all (ps @ [PubMessage ts d m]) (SelfAgent_init cfg i s g t))) = 500"
    if "1000 < length (message_buffer (publish_all ps (SelfAgent_init cfg i s g t))) + 1"
  proof -
    from that have "1000 < length (fill [] (message_events ps) @ message_events [PubMessage ts d m])"
      by (simp add: message_buffer_publish_all m0)
    from fill_overflow_history [OF this length_message_events_single] show ?thesis
      unfolding message_buffer_publish_all m0 message_events_append .
  qed
  have o2: "state_buffer (publish_all (ps @ [PubState ts ev data]) (SelfAgent_init cfg i s g t)) =
        py_last 500 (state_events (ps @ [PubState ts ev data])) \<and>
      length (state_buffer
        (publish_all (ps @ [PubState ts ev data]) (SelfAgent_init cfg i s g t))) = 500"
    if "1000 < length (state_buffer (publish_all ps (SelfAgent_init cfg i s g t))) + 1"
  proof -
    from that have "1000 < length (fill [] (state_events ps) @ state_events [PubState ts ev data])"
      by (simp add: state_buffer_publish_all s0)
    from fill_overflow_history [OF this length_state_events_single] show ?thesis
      unfolding state_buffer_publish_all s0 state_events_append .
  qed
  from b1 b2 o1 o2 show ?thesis
    by blast
qed

theorem bounded_buffers_witness:
  "(let a = SelfAgent_init \<lparr>enabled = True, model = None, reflection_interval = 300,
                max_iterations = 10\<rparr> [] [] [] [];
        pm = PubMessage (ascii ''t'') (ascii ''inbound'') \<lparr>msg_channel = None, msg_str = ascii ''hi''\<rparr>;
        pst = PubState (ascii ''t'') (ascii ''tool_start'') []
    in 1000 < length (message_buffer (publish_all (replicate 1000 pm) a)) + 1 \<and>
       message_buffer (publish_all (replicate 1000 pm @ [pm]) a) =
         py_last 500 (message_events (replicate 1000 pm @ [pm])) \<and>
       length (message_buffer (publish_all (replicate 1000 pm @ [pm]) a)) = 500 \<and>
       1000 < length (state_buffer (publish_all (replicate 1000 pst) a)) + 1 \<and>
       state_buffer (publish_all (replicate 1000 pst @ [pst]) a) =
         py_last 500 (state_events (replicate 1000 pst @ [pst])) \<and>
       length (state_buffer (publish_all (replicate 1000 pst @ [pst]) a)) = 500)"
proof -
  let ?cfg = "\<lparr>enabled = True, model = None, reflection_interval = 300, max_iterations = 10\<rparr>"
  let ?a = "SelfAgent_init ?cfg [] [] [] []"
  let ?pm = "PubMessage (ascii ''t'') (ascii ''inbound'') \<lparr>msg_channel = None, msg_str = ascii ''hi''\<rparr>"
  let ?pst = "PubState (ascii ''t'') (ascii ''tool_start'') []"
  have h1: "1000 < length (message_buffer (publish_all (replicate 1000 ?pm) ?a)) + 1"
    by (simp add: message_buffer_publish_all message_events_replicate fill_no_overflow
        SelfAgent_init_def)
  have h2: "1000 < length (state_buffer (publish_all (replicate 1000 ?pst) ?a)) + 1"
    by (simp add: state_buffer_publish_all state_events_replicate fill_no_overflow
        SelfAgent_init_def)
  note t1 = bounded_buffers [of "replicate 1000 ?pm" ?cfg "[]" "[]" "[]" "[]"
      "ascii ''t''" "ascii ''inbound''" "\<lparr>msg_channel = None, msg_str = ascii ''hi''\<rparr>"]
  note t2 = bounded_buffers [of "replicate 1000 ?pst" ?cfg "[]" "[]" "[]" "[]"
      "ascii ''t''" _ _ "ascii ''tool_start''" "[]"]
  have c1: "message_buffer (publish_all (replicate 1000 ?pm @ [?pm]) ?a) =
         py_last 500 (message_events (replicate 1000 ?pm @ [?pm])) \<and>
       length (message_buffer (publish_all (replicate 1000 ?pm @ [?pm]) ?a)) = 500"
    using t1 [THEN conjunct2, THEN conjunct2, THEN conjunct1] h1 by (rule mp)
  have c2: "state_buffer (publish_all (replicate 1000 ?pst @ [?pst]) ?a) =
         py_last 500 (state_events (replicate 1000 ?pst @ [?pst])) \<and>
       length (state_buffer (publish_all (replicate 1000 ?pst @ [?pst]) ?a)) = 500"
    using t2 [THEN conjunct2, THEN conjunct2, THEN conjunct2] h2 by (rule mp)
  show ?thesis
    unfolding Let_def using h1 h2 c1 c2 by blast
qed

lemma buffer_after_1200:
  "length (message_events ps) = 1200 \<Longrightarrow>
   message_buffer (publish_all ps (SelfAgent_init cfg i s g t)) = drop 501 (message_events ps)"
  by (simp add: message_buffer_publish_all fill_1200 SelfAgent_init_def)

text \<open>
  Claim C4, in the form the code satisfies. After 1200 message events have been published
  into the buffer of a fresh agent, the buffer holds 699 events: the cut happens once, at
  the 1001st publish, which leaves the events 501 to 1000, and the 199 publishes after it
  are appended. The buffer is the events 501 to 1199 (counted from 0) in order.
\<close>

theorem twelve_hundred_messages:
  "length (message_events ps) = 1200 \<longrightarrow>
   message_buffer (publish_all ps (SelfAgent_init cfg i s g t)) = drop 501 (message_events ps) \<and>
   length (message_buffer (publish_all ps (SelfAgent_init cfg i s g t))) = 699"
  by (simp add: buffer_after_1200)

theorem twelve_hundred_messages_witness:
  "(let a = SelfAgent_init \<lparr>enabled = True, model = None, reflection_interval = 300,
                max_iterations = 10\<rparr> [] [] [] [];
        ps = replicate 1200 (PubMessage (ascii ''t'') (ascii ''inbound'')
                \<lparr>msg_channel = None, msg_str = ascii ''hi''\<rparr>)
    in length (message_events ps) = 1200 \<and>
       message_buffer (publish_all ps a) = drop 501 (message_events ps) \<and>
       length (message_buffer (publish_all ps a)) = 699)"
proof -
  let ?cfg = "\<lparr>enabled = True, model = None, reflection_interval = 300, max_iterations = 10\<rparr>"
  let ?ps = "replicate 1200 (PubMessage (ascii ''t'') (ascii ''inbound'')
                \<lparr>msg_channel = None, msg_str = ascii ''hi''\<rparr>)"
  have h: "length (message_events ?ps) = 1200"
    by (simp add: message_events_replicate)
  from twelve_hundred_messages [of ?ps ?cfg "[]" "[]" "[]" "[]", THEN mp, OF h] h
  show ?thesis
    unfolding Let_def by blast
qed

text \<open>
  The claim as stated gives the length 500; on 1200 publishes of a message the length is
  not 500.
\<close>

theorem twelve_hundred_messages_counterexample:
  "length (message_buffer (publish_all
      (replicate 1200 (PubMessage (ascii ''t'') (ascii ''inbound'')
          \<lparr>msg_channel = None, msg_str = ascii ''hi''\<rparr>))
      (SelfAgent_init \<lparr>enabled = True, model = None, reflection_interval = 300,
          max_iterations = 10\<rparr> [] [] [] []))) \<noteq> 500"
  by (simp add: buffer_after_1200 message_events_replicate)

section \<open>Properties of the tool-calling loop\<close>

lemma chat_calls_append: "chat_calls (xs @ ys) = chat_calls xs + chat_calls ys"
  by (simp add: chat_calls_def)

lemma exec_tool_calls_ok:
  "(\<forall>tr n args. \<exists>s. tools_execute d tr n args = Inr s) \<Longrightarrow>
   \<exists>msgs' lg' tr'. exec_tool_calls d tcs msgs lg tr = (Inr msgs', lg', tr @ tr') \<and>
      chat_calls tr' = 0"
proof (induction tcs arbitrary: msgs lg tr)
  case Nil
  have "exec_tool_calls d [] msgs lg tr = (Inr msgs, lg, tr @ []) \<and> chat_calls [] = 0"
    by (simp add: chat_calls_def)
  then show ?case by blast
next
  case (Cons tc tcs)
  let ?c = "ToolCall (tc_name tc) (tc_arguments tc)"
  obtain s where s: "tools_execute d tr (tc_name tc) (tc_arguments tc) = Inr s"
    using Cons.prems by blast
  obtain msgs' lg' tr' where r: "exec_tool_calls d tcs (msgs @ [ToolMsg (tc_id tc) s])
        (lg @ [ExecutingTool (tc_name tc)]) (tr @ [?c]) = (Inr msgs', lg', (tr @ [?c]) @ tr')"
    and c: "chat_calls tr' = 0"
    using Cons.IH [OF Cons.prems] by blast
  have "exec_tool_calls d (tc # tcs) msgs lg tr = (Inr msgs', lg', tr @ (?c # tr'))"
    using s r by simp
  moreover have "chat_calls (?c # tr') = 0"
    using c by (simp add: chat_calls_def)
  ultimately show ?case by blast
qed

lemma agent_iterations_bound:
  assumes chat: "\<forall>tr msgs. \<exists>r. chat d tr msgs = Inr r \<and> has_tool_calls r"
    and tools: "\<forall>tr n args. \<exists>s. tools_execute d tr n args = Inr s"
  shows "\<exists>lg' tr'. agent_iterations d k i msgs lg tr =
       (Inr (ascii ''Max iterations reached''), lg', tr @ tr') \<and> chat_calls tr' = k"
proof (induction k arbitrary: i msgs lg tr)
  case 0
  have "agent_iterations d 0 i msgs lg tr = (Inr (ascii ''Max iterations reached''), lg, tr @ [])
      \<and> chat_calls [] = 0"
    by (simp add: chat_calls_def)
  then show ?case by blast
next
  case (Suc k)
  obtain r where r: "chat d tr msgs = Inr r" and h: "has_tool_calls r"
    using chat by blast
  define lg1 where "lg1 = lg @ [Iteration (i + 1)
                 (case content r of
                    None \<Rightarrow> ascii ''no content''
                  | Some c \<Rightarrow> if c = [] then ascii ''no content'' else take 100 c)]"
  obtain msgs' lg2 tr2 where e: "exec_tool_calls d (tool_calls r) msgs lg1 (tr @ [ChatCall msgs]) =
      (Inr msgs', lg2, (tr @ [ChatCall msgs]) @ tr2)" and c2: "chat_calls tr2 = 0"
    using exec_tool_calls_ok [OF tools] by blast
  obtain lg' tr' where it: "agent_iterations d k (i + 1) msgs' lg2 ((tr @ [ChatCall msgs]) @ tr2) =
      (Inr (ascii ''Max iterations reached''), lg', ((tr @ [ChatCall msgs]) @ tr2) @ tr')"
    and c: "chat_calls tr' = k"
    using Suc.IH by blast
  have "agent_iterations d (Suc k) i msgs lg tr =
      (Inr (ascii ''Max iterations reached''), lg', tr @ (ChatCall msgs # tr2 @ tr'))"
    using r h e it by (simp add: lg1_def Let_def)
  moreover have "chat_calls (ChatCall msgs # tr2 @ tr') = Suc k"
    using c c2 by (simp add: chat_calls_def)
  ultimately show ?case by blast
qed

text \<open>
  Whatever the provider and the tools do, the loop returns after at most as many provider
  calls as iterations were left.
\<close>

lemma exec_tool_calls_trace:
  "\<exists>r lg' tr'. exec_tool_calls d tcs msgs lg tr = (r, lg', tr @ tr') \<and> chat_calls tr' = 0"
proof (induction tcs arbitrary: msgs lg tr)
  case Nil
  have "exec_tool_calls d [] msgs lg tr = (Inr msgs, lg, tr @ []) \<and> chat_calls [] = 0"
    by (simp add: chat_calls_def)
  then show ?case by blast
next
  case (Cons tc tcs)
  let ?c = "ToolCall (tc_name tc) (tc_arguments tc)"
  show ?case
  proof (cases "tools_execute d tr (tc_name tc) (tc_arguments tc)")
    case (Inl e)
    then have "exec_tool_calls d (tc # tcs) msgs lg tr =
        (Inl e, lg @ [ExecutingTool (tc_name tc)], tr @ [?c]) \<and> chat_calls [?c] = 0"
      by (simp add: chat_calls_def)
    then show ?thesis by blast
  next
    case (Inr s)
    obtain r lg' tr' where r: "exec_tool_calls d tcs (msgs @ [ToolMsg (tc_id tc) s])
        (lg @ [ExecutingTool (tc_name tc)]) (tr @ [?c]) = (r, lg', (tr @ [?c]) @ tr')"
      and c: "chat_calls tr' = 0"
      using Cons.IH by blast
    have "exec_tool_calls d (tc # tcs) msgs lg tr = (r, lg', tr @ (?c # tr'))"
      using Inr r by simp
    moreover have "chat_calls (?c # tr') = 0"
      using c by (simp add: chat_calls_def)
    ultimately show ?thesis by blast
  qed
qed

lemma agent_iterations_calls_bounded:
  "\<exists>r lg' tr'. agent_iterations d k i msgs lg tr = (r, lg', tr @ tr') \<and> chat_calls tr' \<le> k"
proof (induction k arbitrary: i msgs lg tr)
  case 0
  have "agent_iterations d 0 i msgs lg tr = (Inr (ascii ''Max iterations reached''), lg, tr @ [])
      \<and> chat_calls [] \<le> 0"
    by (simp add: chat_calls_def)
  then show ?case by blast
next
  case (Suc k)
  have one: "chat_calls [ChatCall msgs] = 1"
    by (simp add: chat_calls_def)
  show ?case
  proof (cases "chat d tr msgs")
    case (Inl e)
    then have "agent_iterations d (Suc k) i msgs lg tr =
        (Inl e, log_loop_error (i + 1) e lg, tr @ [ChatCall msgs])"
      by simp
    with one show ?thesis
      by (metis le_add1 plus_1_eq_Suc)
  next
    case (Inr r)
    define lg1 where "lg1 = lg @ [Iteration (i + 1)
                 (case content r of
                    None \<Rightarrow> ascii ''no content''
                  | Some c \<Rightarrow> if c = [] then ascii ''no content'' else take 100 c)]"
    show ?thesis
    proof (cases "has_tool_calls r")
      case False
      with Inr have "agent_iterations d (Suc k) i msgs lg tr =
          (Inr (case content r of None \<Rightarrow> [] | Some c \<Rightarrow> c), lg1, tr @ [ChatCall msgs])"
        by (simp add: lg1_def Let_def)
      with one show ?thesis
        by (metis le_add1 plus_1_eq_Suc)
    next
      case True
      obtain res lg2 tr2 where x: "exec_tool_calls d (tool_calls r) msgs lg1 (tr @ [ChatCall msgs]) =
          (res, lg2, (tr @ [ChatCall msgs]) @ tr2)" and c2: "chat_calls tr2 = 0"
        using exec_tool_calls_trace by blast
      have c12: "chat_calls (ChatCall msgs # tr2) = 1"
        using c2 by (simp add: chat_calls_def)
      show ?thesis
      proof (cases res)
        case (Inl e)
        with Inr True x have "agent_iterations d (Suc k) i msgs lg tr =
            (Inl e, log_loop_error (i + 1) e lg2, tr @ (ChatCall msgs # tr2))"
          by (simp add: lg1_def Let_def)
        with c12 show ?thesis
          by (metis le_add1 plus_1_eq_Suc)
      next
        case (Inr msgs')
        obtain r' lg' tr' where it: "agent_iterations d k (i + 1) msgs' lg2
            ((tr @ [ChatCall msgs]) @ tr2) = (r', lg', ((tr @ [ChatCall msgs]) @ tr2) @ tr')"
          and c: "chat_calls tr' \<le> k"
          using Suc.IH by blast
        from Inr \<open>chat d tr msgs = Inr r\<close> True x it
        have "agent_iterations d (Suc k) i msgs lg tr = (r', lg', tr @ (ChatCall msgs # tr2 @ tr'))"
          by (simp add: lg1_def Let_def)
        moreover have "chat_calls (ChatCall msgs # tr2 @ tr') \<le> Suc k"
          using c c2 by (simp add: chat_calls_def)
        ultimately show ?thesis by blast
      qed
    qed
  qed
qed

text \<open>
  Claim C5. If every response of the provider carries tool calls (and no tool invocation
  raises), \<open>_run_agent_loop\<close> returns the string \<open>Max iterations reached\<close>: it does not
  raise, and it has called the provider exactly \<open>max_iterations\<close> times, once per
  iteration. The loop is a recursion on the number of iterations left, so it always
  returns. For \<open>max_iterations \<ge> 1\<close> the number of calls \<open>nat max_iterations\<close> is
  \<open>max_iterations\<close> itself.
\<close>

theorem loop_bound:
  "(\<forall>tr msgs. \<exists>r. chat d tr msgs = Inr r \<and> has_tool_calls r) \<and>
   (\<forall>tr n args. \<exists>s. tools_execute d tr n args = Inr s) \<longrightarrow>
   (\<exists>a' tr'. run_agent_loop d a system_prompt user_prompt tr =
        (Inr (ascii ''Max iterations reached''), a', tr @ tr') \<and>
      chat_calls tr' = nat (max_iterations (config a)))"
proof
  assume h: "(\<forall>tr msgs. \<exists>r. chat d tr msgs = Inr r \<and> has_tool_calls r) \<and>
   (\<forall>tr n args. \<exists>s. tools_execute d tr n args = Inr s)"
  obtain lg' tr' where "agent_iterations d (nat (max_iterations (config a))) 0
        [ChatMsg (ascii ''system'') system_prompt, ChatMsg (ascii ''user'') user_prompt]
        (logger a) tr = (Inr (ascii ''Max iterations reached''), lg', tr @ tr')"
    and "chat_calls tr' = nat (max_iterations (config a))"
    using agent_iterations_bound h by blast
  then have "run_agent_loop d a system_prompt user_prompt tr =
        (Inr (ascii ''Max iterations reached''), a\<lparr>logger := lg'\<rparr>, tr @ tr') \<and>
      chat_calls tr' = nat (max_iterations (config a))"
    by (simp add: run_agent_loop_def)
  then show "\<exists>a' tr'. run_agent_loop d a system_prompt user_prompt tr =
        (Inr (ascii ''Max iterations reached''), a', tr @ tr') \<and>
      chat_calls tr' = nat (max_iterations (config a))"
    by blast
qed

theorem loop_bound_witness:
  "(let d = \<lparr>chat = (\<lambda>tr msgs. Inr \<lparr>content = None, has_tool_calls = True,
                 tool_calls = [\<lparr>tc_id = ascii ''1'', tc_name = ascii ''list_dir'',
                                tc_arguments = []\<rparr>]\<rparr>),
             tools_execute = (\<lambda>tr n args. Inr (ascii ''ok'')),
             dumps_messages = (\<lambda>ms. Inr []), dumps_states = (\<lambda>ss. Inr [])\<rparr>;
        a = SelfAgent_init \<lparr>enabled = True, model = None, reflection_interval = 300,
                max_iterations = 3\<rparr> [] [] [] []
    in ((\<forall>tr msgs. \<exists>r. chat d tr msgs = Inr r \<and> has_tool_calls r) \<and>
        (\<forall>tr n args. \<exists>s. tools_execute d tr n args = Inr s)) \<and>
       (\<exists>a' tr'. run_agent_loop d a (ascii ''system prompt'') (ascii ''user prompt'') [] =
            (Inr (ascii ''Max iterations reached''), a', [] @ tr') \<and>
          chat_calls tr' = nat (max_iterations (config a))) \<and>
       nat (max_iterations (config a)) = 3)"
proof -
  let ?d = "\<lparr>chat = (\<lambda>tr msgs. Inr \<lparr>content = None, has_tool_calls = True,
                 tool_calls = [\<lparr>tc_id = ascii ''1'', tc_name = ascii ''list_dir'',
                                tc_arguments = []\<rparr>]\<rparr>),
             tools_execute = (\<lambda>tr n args. Inr (ascii ''ok'')),
             dumps_messages = (\<lambda>ms. Inr []), dumps_states = (\<lambda>ss. Inr [])\<rparr>"
  let ?a = "SelfAgent_init \<lparr>enabled = True, model = None, reflection_interval = 300,
                max_iterations = 3\<rparr> [] [] [] []"
  have h: "(\<forall>tr msgs. \<exists>r. chat ?d tr msgs = Inr r \<and> has_tool_calls r) \<and>
        (\<forall>tr n args. \<exists>s. tools_execute ?d tr n args = Inr s)"
    by simp
  have n: "nat (max_iterations (config ?a)) = 3"
    by (simp add: SelfAgent_init_def)
  have c: "\<exists>a' tr'. run_agent_loop ?d ?a (ascii ''system prompt'') (ascii ''user prompt'') [] =
            (Inr (ascii ''Max iterations reached''), a', [] @ tr') \<and>
          chat_calls tr' = nat (max_iterations (config ?a))"
    using loop_bound [of ?d ?a "ascii ''system prompt''" "ascii ''user prompt''" "[]"] h
    by (rule mp)
  show ?thesis
    unfolding Let_def by (rule conjI, rule h, rule conjI, rule c, rule n)
qed

section \<open>Properties of the reflection cycle and the scheduler\<close>



lemma run_agent_loop_agent:
  "run_agent_loop d a sp up tr = (r, a', tr') \<Longrightarrow> \<exists>lg. a' = a\<lparr>logger := lg\<rparr>"
  by (auto simp: run_agent_loop_def split: prod.splits)



lemma perform_reflection_agent:
  "perform_reflection d a tr = (r, a', tr') \<Longrightarrow>
   message_buffer a' = [] \<and> state_buffer a' = [] \<and> running a' = running a \<and> config a' = config a"
  unfolding perform_reflection_def drain_def log_reflection_def
  by (auto simp: Let_def split: if_splits sum.splits prod.splits dest!: run_agent_loop_agent)


lemma perform_reflection_idle:
  "message_buffer a = [] \<Longrightarrow> state_buffer a = [] \<Longrightarrow> perform_reflection d a tr = (Inr (), a, tr)"
  by (simp add: perform_reflection_def drain_def)






text \<open>
  Claim C8. The drain returns the contents of both buffers as they were and leaves both
  empty, in one atomic step. A later drain therefore returns only events published after
  the earlier one (its snapshots are suffixes of what was published in between), and the
  buffers are empty after every scheduler tick. When both buffers are empty at the tick,
  \<open>_perform_reflection\<close> returns at once: the agent, its log and the trace of provider and
  tool calls are unchanged, whatever the provider, the tools and \<open>json.dumps\<close> would do.
\<close>

theorem drain_and_skip:
  "drain a = ((message_buffer a, state_buffer a), snd (drain a)) \<and>
   message_buffer (snd (drain a)) = [] \<and> state_buffer (snd (drain a)) = [] \<and>
   suffix (fst (fst (drain (publish_all ps (snd (drain a)))))) (message_events ps) \<and>
   suffix (snd (fst (drain (publish_all ps (snd (drain a)))))) (state_events ps) \<and>
   message_buffer (fst (snd (perform_reflection d a tr))) = [] \<and>
   state_buffer (fst (snd (perform_reflection d a tr))) = [] \<and>
   (message_buffer a = [] \<and> state_buffer a = [] \<longrightarrow>
      perform_reflection d a tr = (Inr (), a, tr))"
proof -
  have m: "message_buffer (snd (drain a)) = []" and s: "state_buffer (snd (drain a)) = []"
    by (simp_all add: drain_def)
  have "suffix (fill [] (message_events ps)) ([] @ message_events ps)"
    by (rule fill_suffix)
  then have s1: "suffix (fst (fst (drain (publish_all ps (snd (drain a)))))) (message_events ps)"
    by (simp add: drain_def message_buffer_publish_all)
  have "suffix (fill [] (state_events ps)) ([] @ state_events ps)"
    by (rule fill_suffix)
  then have s2: "suffix (snd (fst (drain (publish_all ps (snd (drain a)))))) (state_events ps)"
    by (simp add: drain_def state_buffer_publish_all)
  obtain r a' tr' where p: "perform_reflection d a tr = (r, a', tr')"
    by (metis prod_cases3)
  have e: "message_buffer (fst (snd (perform_reflection d a tr))) = []"
      "state_buffer (fst (snd (perform_reflection d a tr))) = []"
    using perform_reflection_agent [OF p] by (simp_all add: p)
  show ?thesis
    using m s s1 s2 e perform_reflection_idle [of a d tr] by (simp add: drain_def)
qed

theorem drain_and_skip_witness:
  "(let d = \<lparr>chat = (\<lambda>tr msgs. Inl (RuntimeError (ascii ''provider down''))),
             tools_execute = (\<lambda>tr n args. Inl (RuntimeError (ascii ''no tools''))),
             dumps_messages = (\<lambda>ms. Inl (RuntimeError (ascii ''not serialisable''))),
             dumps_states = (\<lambda>ss. Inl (RuntimeError (ascii ''not serialisable'')))\<rparr>;
        a = SelfAgent_init \<lparr>enabled = True, model = None, reflection_interval = 300,
                max_iterations = 3\<rparr> [] [] [] []
    in (message_buffer a = [] \<and> state_buffer a = []) \<and>
       perform_reflection d a [] = (Inr (), a, []))"
proof -
  let ?d = "\<lparr>chat = (\<lambda>tr msgs. Inl (RuntimeError (ascii ''provider down''))),
             tools_execute = (\<lambda>tr n args. Inl (RuntimeError (ascii ''no tools''))),
             dumps_messages = (\<lambda>ms. Inl (RuntimeError (ascii ''not serialisable''))),
             dumps_states = (\<lambda>ss. Inl (RuntimeError (ascii ''not serialisable'')))\<rparr>"
  let ?a = "SelfAgent_init \<lparr>enabled = True, model = None, reflection_interval = 300,
                max_iterations = 3\<rparr> [] [] [] []"
  have h: "message_buffer ?a = [] \<and> state_buffer ?a = []"
    by (simp add: SelfAgent_init_def)
  have c: "perform_reflection ?d ?a [] = (Inr (), ?a, [])"
    using drain_and_skip [of ?a _ ?d "[]"] h by blast
  show ?thesis
    unfolding Let_def by (rule conjI, rule h, rule c)
qed



section \<open>Properties of LockedWriteFileTool\<close>

lemma lower_from_skip:
  "\<exists>front. lower_from f b (ps @ rest) = front @ lower_from f (b @ ps) rest"
proof (induction ps arbitrary: b)
  case Nil
  show ?case by simp
next
  case (Cons c ps)
  obtain front where "lower_from f (b @ [c]) (ps @ rest) = front @ lower_from f ((b @ [c]) @ ps) rest"
    using Cons.IH by blast
  then have "lower_from f b ((c # ps) @ rest) =
      ((if c < 128 then [if 65 \<le> c \<and> c \<le> 90 then c + 32 else c] else f b c (ps @ rest)) @ front)
      @ lower_from f (b @ c # ps) rest"
    by simp
  then show ?case by blast
qed

lemma lower_from_MEMORY:
  "lower_from f b (ascii ''MEMORY.md'' @ ss) =
   ascii ''memory'' @ ascii ''.md'' @ lower_from f (b @ ascii ''MEMORY.md'') ss"
  by (simp add: ascii_def)

lemma memory_in_lower:
  assumes "py_in (ascii ''MEMORY.md'') fp"
  shows "py_in (ascii ''memory'') (py_lower f fp)"
proof -
  from assms obtain ps ss where fp: "fp = ps @ ascii ''MEMORY.md'' @ ss"
    unfolding py_in_sublist sublist_def by blast
  obtain front where "py_lower f fp = front @ lower_from f ([] @ ps) (ascii ''MEMORY.md'' @ ss)"
    unfolding py_lower_def fp using lower_from_skip by blast
  then have "py_lower f fp = front @ ascii ''memory'' @
      (ascii ''.md'' @ lower_from f (([] @ ps) @ ascii ''MEMORY.md'') ss)"
    by (simp only: lower_from_MEMORY)
  then show ?thesis
    unfolding py_in_sublist sublist_def by blast
qed

lemma written_content_eq:
  "written_content t fp body =
     (if py_in (ascii ''MEMORY.md'') fp \<and> \<not> startswith (py_strip body) insight_prefix
      then insight_prefix @ ascii '' '' @ body else body)"
  using memory_in_lower [of fp "lower_table t"] by (auto simp: written_content_def)

text \<open>
  Claim C10. When the resolved path contains \<open>MEMORY.md\<close> and the stripped content does not
  start with the insight marker, the content handed to the write is the original content
  with the marker and a space in front; for a path that does not contain \<open>MEMORY.md\<close> it
  is the original content. (The other test of the code, \<open>memory\<close> in the lowercased path,
  follows from the first.) And every call that resolves its path and acquires the lock
  performs the write with exactly this content, and releases the lock afterwards.
\<close>

theorem memory_insight_prefix:
  "(py_in (ascii ''MEMORY.md'') fp \<and> \<not> startswith (py_strip body) insight_prefix \<longrightarrow>
      written_content t fp body = insight_prefix @ ascii '' '' @ body) \<and>
   (\<not> py_in (ascii ''MEMORY.md'') fp \<longrightarrow> written_content t fp body = body) \<and>
   (resolve_path t path = Inr fp \<and>
    acquire (others t) (FileLock_init fp 10 (tool_is_main_agent t)) w = Inr (True, l, w1) \<longrightarrow>
      LockedWriteFileTool_execute t path body w =
        (case super_execute t path (written_content t fp body) w1 of
           (r, w2) \<Rightarrow> (case release l w2 of Inl e \<Rightarrow> (Inl e, w2) | Inr (l', w3) \<Rightarrow> (r, w3))))"
  by (simp add: written_content_eq LockedWriteFileTool_execute_def file_lock_def)

theorem memory_insight_prefix_witness:
  "(let t = \<lparr>resolve_path = (\<lambda>p. Inr (ascii ''/ws/memory/'' @ p)),
             super_execute = (\<lambda>p c w. (Inr (ascii ''ok''), w\<lparr>files := (files w)(p \<mapsto> c)\<rparr>)),
             lower_table = (\<lambda>b c a. [c]), others = id, tool_is_main_agent = False\<rparr>;
        fp = ascii ''/ws/memory/MEMORY.md'';
        w0 = \<lparr>files = Map.empty, now = 2, pid = 9, str_float = str_nat \<circ> nat \<circ> floor,
               read_denied = {}, write_denied = {}, unlink_denied = {}\<rparr>;
        l = (FileLock_init fp 10 False)\<lparr>acquired := True\<rparr>;
        w1 = w0\<lparr>files := [lockfile l \<mapsto> marker_content w0 False]\<rparr>
    in (py_in (ascii ''MEMORY.md'') fp \<and>
        \<not> startswith (py_strip (ascii ''note'')) insight_prefix) \<and>
       written_content t fp (ascii ''note'') = insight_prefix @ ascii '' '' @ ascii ''note'' \<and>
       \<not> py_in (ascii ''MEMORY.md'') (ascii ''/ws/notes.txt'') \<and>
       written_content t (ascii ''/ws/notes.txt'') (ascii ''note'') = ascii ''note'' \<and>
       (resolve_path t (ascii ''MEMORY.md'') = Inr fp \<and>
        acquire (others t) (FileLock_init fp 10 (tool_is_main_agent t)) w0 = Inr (True, l, w1)) \<and>
       LockedWriteFileTool_execute t (ascii ''MEMORY.md'') (ascii ''note'') w0 =
         (Inr (ascii ''ok''),
          w0\<lparr>files := [ascii ''MEMORY.md'' \<mapsto> insight_prefix @ ascii '' note'']\<rparr>))"
proof -
  let ?t = "\<lparr>resolve_path = (\<lambda>p. Inr (ascii ''/ws/memory/'' @ p)),
             super_execute = (\<lambda>p c w. (Inr (ascii ''ok''), w\<lparr>files := (files w)(p \<mapsto> c)\<rparr>)),
             lower_table = (\<lambda>b c a. [c]), others = id, tool_is_main_agent = False\<rparr>"
  let ?fp = "ascii ''/ws/memory/MEMORY.md''"
  let ?w0 = "\<lparr>files = Map.empty, now = 2, pid = 9, str_float = str_nat \<circ> nat \<circ> floor,
               read_denied = {}, write_denied = {}, unlink_denied = {}\<rparr>"
  let ?l = "(FileLock_init ?fp 10 False)\<lparr>acquired := True\<rparr>"
  let ?w1 = "?w0\<lparr>files := [lockfile ?l \<mapsto> marker_content ?w0 False]\<rparr>"
  have h1: "py_in (ascii ''MEMORY.md'') ?fp \<and>
        \<not> startswith (py_strip (ascii ''note'')) insight_prefix"
    by (simp add: ascii_def startswith_def py_strip_def is_space_def insight_prefix_def)
  have h2: "\<not> py_in (ascii ''MEMORY.md'') (ascii ''/ws/notes.txt'')"
    by (simp add: ascii_def)
  have h3: "resolve_path ?t (ascii ''MEMORY.md'') = Inr ?fp \<and>
        acquire (others ?t) (FileLock_init ?fp 10 (tool_is_main_agent ?t)) ?w0 = Inr (True, ?l, ?w1)"
    by (simp add: acquire_def acquire_loop.simps acquire_iter_def try_create_def
        path_exists_def write_text_def FileLock_init_def ascii_def)
  note th = memory_insight_prefix [of ?fp "ascii ''note''" ?t "ascii ''MEMORY.md''" ?w0 ?l ?w1]
  have c1: "written_content ?t ?fp (ascii ''note'') = insight_prefix @ ascii '' '' @ ascii ''note''"
    using th [THEN conjunct1] h1 by (rule mp)
  have c2: "written_content ?t (ascii ''/ws/notes.txt'') (ascii ''note'') = ascii ''note''"
    using memory_insight_prefix [of "ascii ''/ws/notes.txt''" "ascii ''note''" ?t,
        THEN conjunct2, THEN conjunct1] h2 by (rule mp)
  have "LockedWriteFileTool_execute ?t (ascii ''MEMORY.md'') (ascii ''note'') ?w0 =
        (case super_execute ?t (ascii ''MEMORY.md'') (written_content ?t ?fp (ascii ''note'')) ?w1 of
           (r, w2) \<Rightarrow> (case release ?l w2 of Inl e \<Rightarrow> (Inl e, w2) | Inr (l', w3) \<Rightarrow> (r, w3)))"
    using th [THEN conjunct2, THEN conjunct2] h3 by (rule mp)
  then have c3: "LockedWriteFileTool_execute ?t (ascii ''MEMORY.md'') (ascii ''note'') ?w0 =
         (Inr (ascii ''ok''),
          ?w0\<lparr>files := [ascii ''MEMORY.md'' \<mapsto> insight_prefix @ ascii '' note'']\<rparr>)"
    unfolding c1
    by (simp add: release_def unlink_def path_exists_def FileLock_init_def ascii_def
        fun_upd_twist)
  show ?thesis
    unfolding Let_def
    by (rule conjI, rule h1, rule conjI, rule c1, rule conjI, rule h2, rule conjI, rule c2,
        rule conjI, rule h3, rule c3)
qed

end
